theory Spec2Isabelle
  imports Complex_Main "HOL-Library.Word" "HOL-Library.AList"
begin

section \<open>Data model of the batcher\<close>

text \<open>
  Go's \<^verbatim>\<open>uint32\<close> is a 32-bit word whose arithmetic wraps. Go's \<^verbatim>\<open>int\<close> is taken at
  its 64-bit width (the width on every 64-bit platform) and read as two's complement with
  \<open>sint\<close>. A \<^verbatim>\<open>time.Duration\<close> is a count of nanoseconds; the only arithmetic the batcher
  does on durations is comparison with zero and the division of \<^verbatim>\<open>Milliseconds()\<close>, so
  they are integers here.
\<close>

type_synonym uint32 = "32 word"
type_synonym go_int = "64 word"
type_synonym duration = int

definition Millisecond :: duration where
  "Millisecond = 1000000"

definition Second :: duration where
  "Second = 1000 * Millisecond"

definition Minute :: duration where
  "Minute = 60 * Second"

text \<open>
  \<^verbatim>\<open>Duration.Milliseconds()\<close> is Go's integer division of the nanoseconds by \<open>10\<^sup>6\<close>, which
  truncates towards zero.
\<close>

definition Milliseconds :: "duration \<Rightarrow> int" where
  "Milliseconds d = sgn d * (\<bar>d\<bar> div 1000000)"

text \<open>
  The interfaces \<^verbatim>\<open>IWatcher\<close>, \<^verbatim>\<open>IOperation\<close> and \<^verbatim>\<open>RateLimiter\<close> are used by the batcher
  only through their accessor methods; each is a record of what those accessors return.
  A watcher is a pointer in Go and the key of the flush pass's map, so it carries its
  identity \<open>wid\<close>.
\<close>

record watcher =
  wid :: nat
  MaxBatchSize :: uint32
  MaxAttempts :: uint32
  MaxOperationTime :: duration

text \<open>
  An operation is parameterised by what its \<^verbatim>\<open>Watcher()\<close> returns: a value handed to
  \<^verbatim>\<open>Enqueue\<close> may have no watcher (\<open>watcher option\<close>), an operation that \<^verbatim>\<open>Enqueue\<close> has put
  into the buffer has one.
\<close>

record 'w operation =
  Watcher :: 'w
  Cost :: uint32
  Attempt :: uint32
  IsBatchable :: bool

type_synonym IOperation = "watcher option operation option"
type_synonym batch = "watcher operation list"

record ratelimiter =
  Capacity :: uint32
  MaxCapacity :: uint32

datatype error =
    NoOperationError
  | NoWatcherError
  | TooExpensiveError
  | TooManyAttemptsError
  | BufferFullError
  | BatcherImproperOrderError
  | BufferNotAllocated

text \<open>A call either returns Go's \<^verbatim>\<open>error\<close> value (\<open>None\<close> is \<^verbatim>\<open>nil\<close>) or blocks its caller.\<close>

datatype outcome = Returns "error option" | Blocks

datatype phase =
    batcherPhaseUninitialized
  | batcherPhaseStarted
  | batcherPhasePaused
  | batcherPhaseStopped

subsection \<open>The buffer\<close>

text \<open>
  Modelled from the spec: the implementation of \<^verbatim>\<open>IBuffer\<close> (\<^verbatim>\<open>NewBuffer\<close>, \<^verbatim>\<open>Enqueue\<close>, \<^verbatim>\<open>Top\<close>,
  \<^verbatim>\<open>Skip\<close>, \<^verbatim>\<open>Remove\<close>, \<^verbatim>\<open>Size\<close>, \<^verbatim>\<open>Max\<close>, \<^verbatim>\<open>Clear\<close>) is not among the sources. The spec
  describes a bounded FIFO with one cursor: \<open>enqueue\<close> returns \<open>BufferFull\<close> if
  \<open>error_on_full\<close> and the buffer is at capacity and otherwise blocks until space exists;
  \<open>top\<close> resets the cursor to the head and returns the head or none; \<open>remove\<close> drops the
  cursor element, advances, and returns the new cursor element; \<open>skip\<close> advances the
  cursor without dropping and returns the new cursor element; \<open>clear\<close> discards all
  items. A producer that blocks stays outside the buffer: the buffer is unchanged.
\<close>

record buffer =
  items :: "watcher operation list"
  cursor :: nat
  max_size :: uint32

definition NewBuffer :: "uint32 \<Rightarrow> buffer" where
  "NewBuffer maxBufferSize = \<lparr>items = [], cursor = 0, max_size = maxBufferSize\<rparr>"

definition at_cursor :: "buffer \<Rightarrow> watcher operation option" where
  "at_cursor b = (if cursor b < length (items b) then Some (items b ! cursor b) else None)"

definition buffer_Enqueue :: "watcher operation \<Rightarrow> bool \<Rightarrow> buffer \<Rightarrow> outcome \<times> buffer" where
  "buffer_Enqueue op errorOnFull b =
     (if length (items b) < unat (max_size b)
      then (Returns None, b\<lparr>items := items b @ [op]\<rparr>)
      else if errorOnFull then (Returns (Some BufferFullError), b)
      else (Blocks, b))"

definition buffer_Top :: "buffer \<Rightarrow> watcher operation option \<times> buffer" where
  "buffer_Top b = (let b' = b\<lparr>cursor := 0\<rparr> in (at_cursor b', b'))"

definition buffer_Skip :: "buffer \<Rightarrow> watcher operation option \<times> buffer" where
  "buffer_Skip b =
     (if cursor b < length (items b)
      then (let b' = b\<lparr>cursor := Suc (cursor b)\<rparr> in (at_cursor b', b'))
      else (None, b))"

definition buffer_Remove :: "buffer \<Rightarrow> watcher operation option \<times> buffer" where
  "buffer_Remove b =
     (if cursor b < length (items b)
      then (let b' = b\<lparr>items := take (cursor b) (items b) @ drop (Suc (cursor b)) (items b)\<rparr>
            in (at_cursor b', b'))
      else (None, b))"

definition buffer_Size :: "buffer \<Rightarrow> uint32" where
  "buffer_Size b = word_of_nat (length (items b))"

definition buffer_Max :: "buffer \<Rightarrow> uint32" where
  "buffer_Max b = max_size b"

definition buffer_Clear :: "buffer \<Rightarrow> buffer" where
  "buffer_Clear b = b\<lparr>items := [], cursor := 0\<rparr>"

subsection \<open>Channels of empty structs\<close>

text \<open>
  A Go channel of \<^verbatim>\<open>struct{}\<close> is its capacity, the number of buffered elements
  (\<^verbatim>\<open>len\<close>), and the number of goroutines blocked in a receive. A send in a
  \<^verbatim>\<open>select\<close> with a \<^verbatim>\<open>default\<close> branch succeeds when a receiver waits (the element is handed
  over) or when the buffer has room. A blocking receive takes a buffered element or
  parks the goroutine.
\<close>

record chan =
  cap :: nat
  len :: nat
  recvq :: nat

definition make_chan :: "nat \<Rightarrow> chan" where
  "make_chan n = \<lparr>cap = n, len = 0, recvq = 0\<rparr>"

definition try_send :: "chan \<Rightarrow> bool \<times> chan" where
  "try_send c =
     (if 0 < recvq c then (True, c\<lparr>recvq := recvq c - 1\<rparr>)
      else if len c < cap c then (True, c\<lparr>len := Suc (len c)\<rparr>)
      else (False, c))"

definition try_recv :: "chan \<Rightarrow> bool \<times> chan" where
  "try_recv c = (if 0 < len c then (True, c\<lparr>len := len c - 1\<rparr>) else (False, c))"

definition recv :: "chan \<Rightarrow> bool \<times> chan" where
  "recv c = (if 0 < len c then (True, c\<lparr>len := len c - 1\<rparr>) else (False, c\<lparr>recvq := Suc (recvq c)\<rparr>))"

datatype stop_chan = stop_nil | stop_open | stop_closed

subsection \<open>The Batcher struct\<close>

text \<open>
  The fields of \<^verbatim>\<open>Batcher\<close>. The one-slot channels \<open>pause\<close> and \<open>flush\<close> are the flag
  "holds a record". \<open>inflight\<close> is \<open>None\<close> for the nil channel of a batcher on which
  \<^verbatim>\<open>WithMaxConcurrentBatches\<close> was never called. \<open>lastFlushWithRecords\<close> is \<open>None\<close> for the
  zero \<^verbatim>\<open>time.Time\<close>. \<open>phaseMutex\<close> is set while a call holds the mutex without ever
  releasing it (a \<^verbatim>\<open>Stop\<close> that waits for a loop that cannot return); every other call
  locks and unlocks it within its own step. The goroutines are state too: \<open>looping\<close>
  says that the processing loop started by \<^verbatim>\<open>Start\<close> has not returned, \<open>sleeping\<close> that
  the loop is inside its pause case (it has received the pause record and has not yet
  come back from \<^verbatim>\<open>resume\<close>), \<open>running\<close> lists the batches whose goroutine (spawned by
  \<^verbatim>\<open>processBatch\<close>) has not yet reached its bookkeeping, and \<open>launched\<close> records every
  batch for which \<^verbatim>\<open>processBatch\<close> spawned a goroutine, oldest first. Events (\<^verbatim>\<open>emit\<close>)
  belong to the embedded \<^verbatim>\<open>eventer\<close> and do not touch these fields.
\<close>

record batcher =
  ratelimiter :: "ratelimiter option"
  flushInterval :: duration
  capacityInterval :: duration
  auditInterval :: duration
  maxOperationTime :: duration
  pauseTime :: duration
  errorOnFullBuffer :: bool
  emitBatch :: bool
  emitFlush :: bool
  maxConcurrentBatches :: uint32
  buffer :: buffer
  pause :: bool
  flush :: bool
  inflight :: "chan option"
  lastFlushWithRecords :: "int option"
  phaseMutex :: bool
  phase :: phase
  stop :: stop_chan
  target :: uint32
  looping :: bool
  sleeping :: bool
  running :: "(watcher \<times> batch) list"
  launched :: "(watcher \<times> batch) list"

definition NewBatcherWithBuffer :: "uint32 \<Rightarrow> batcher" where
  "NewBatcherWithBuffer maxBufferSize =
     \<lparr>ratelimiter = None, flushInterval = 0, capacityInterval = 0, auditInterval = 0,
      maxOperationTime = 0, pauseTime = 0, errorOnFullBuffer = False, emitBatch = False,
      emitFlush = False, maxConcurrentBatches = 0, buffer = NewBuffer maxBufferSize,
      pause = False, flush = False, inflight = None, lastFlushWithRecords = None,
      phaseMutex = False, phase = batcherPhaseUninitialized, stop = stop_nil, target = 0,
      looping = False, sleeping = False, running = [], launched = []\<rparr>"

definition NewBatcher :: batcher where
  "NewBatcher = NewBatcherWithBuffer 10000"

subsection \<open>The target\<close>

definition NeedsCapacity :: "batcher \<Rightarrow> uint32" where
  "NeedsCapacity r = target r"

definition confirmTargetIsZero :: "batcher \<Rightarrow> bool \<times> batcher" where
  "confirmTargetIsZero r = (if target r > 0 then (False, r\<lparr>target := 0\<rparr>) else (True, r))"

text \<open>
  \<^verbatim>\<open>incTarget(val int)\<close>: \<^verbatim>\<open>uint32(-val)\<close> and \<^verbatim>\<open>uint32(val)\<close> keep the low 32 bits of the
  64-bit value (\<open>ucast\<close>), and \<^verbatim>\<open>+=\<close> on the \<^verbatim>\<open>uint32\<close> target wraps.
\<close>

definition incTarget :: "go_int \<Rightarrow> batcher \<Rightarrow> batcher" where
  "incTarget val r =
     (if val <s 0 \<and> target r \<ge> ucast (- val) then r\<lparr>target := target r + ucast val\<rparr>
      else if val <s 0 then r\<lparr>target := 0\<rparr>
      else if 0 <s val then r\<lparr>target := target r + ucast val\<rparr>
      else r)"

subsection \<open>Configuration\<close>

definition WithRateLimiter :: "ratelimiter option \<Rightarrow> batcher \<Rightarrow> batcher" where
  "WithRateLimiter rl r = r\<lparr>ratelimiter := rl\<rparr>"

definition WithFlushInterval :: "duration \<Rightarrow> batcher \<Rightarrow> batcher" where
  "WithFlushInterval val r = r\<lparr>flushInterval := val\<rparr>"

definition WithCapacityInterval :: "duration \<Rightarrow> batcher \<Rightarrow> batcher" where
  "WithCapacityInterval val r = r\<lparr>capacityInterval := val\<rparr>"

definition WithAuditInterval :: "duration \<Rightarrow> batcher \<Rightarrow> batcher" where
  "WithAuditInterval val r = r\<lparr>auditInterval := val\<rparr>"

definition WithMaxOperationTime :: "duration \<Rightarrow> batcher \<Rightarrow> batcher" where
  "WithMaxOperationTime val r = r\<lparr>maxOperationTime := val\<rparr>"

definition WithPauseTime :: "duration \<Rightarrow> batcher \<Rightarrow> batcher" where
  "WithPauseTime val r = r\<lparr>pauseTime := val\<rparr>"

definition WithErrorOnFullBuffer :: "batcher \<Rightarrow> batcher" where
  "WithErrorOnFullBuffer r = r\<lparr>errorOnFullBuffer := True\<rparr>"

definition WithEmitBatch :: "batcher \<Rightarrow> batcher" where
  "WithEmitBatch r = r\<lparr>emitBatch := True\<rparr>"

definition WithEmitFlush :: "batcher \<Rightarrow> batcher" where
  "WithEmitFlush r = r\<lparr>emitFlush := True\<rparr>"

definition WithMaxConcurrentBatches :: "uint32 \<Rightarrow> batcher \<Rightarrow> batcher" where
  "WithMaxConcurrentBatches val r =
     r\<lparr>maxConcurrentBatches := val, inflight := Some (make_chan (unat val))\<rparr>"

definition applyDefaults :: "batcher \<Rightarrow> batcher" where
  "applyDefaults r =
     (let r1 = (if flushInterval r \<le> 0 then r\<lparr>flushInterval := 100 * Millisecond\<rparr> else r);
          r2 = (if capacityInterval r1 \<le> 0 then r1\<lparr>capacityInterval := 100 * Millisecond\<rparr> else r1);
          r3 = (if auditInterval r2 \<le> 0 then r2\<lparr>auditInterval := 10 * Second\<rparr> else r2);
          r4 = (if maxOperationTime r3 \<le> 0 then r3\<lparr>maxOperationTime := 1 * Minute\<rparr> else r3)
      in if pauseTime r4 \<le> 0 then r4\<lparr>pauseTime := 500 * Millisecond\<rparr> else r4)"

subsection \<open>Enqueue\<close>

text \<open>
  \<^verbatim>\<open>Enqueue(op IOperation) error\<close>. \<^verbatim>\<open>int(op.Cost())\<close> zero-extends the cost to the 64-bit
  \<^verbatim>\<open>int\<close>. The buffer receives the operation with the watcher that the second check found.
\<close>

definition Enqueue :: "IOperation \<Rightarrow> batcher \<Rightarrow> outcome \<times> batcher" where
  "Enqueue op r =
     (case op of
        None \<Rightarrow> (Returns (Some NoOperationError), r)
      | Some p \<Rightarrow>
          (case Watcher p of
             None \<Rightarrow> (Returns (Some NoWatcherError), r)
           | Some watcher \<Rightarrow>
               if (case ratelimiter r of None \<Rightarrow> False | Some rl \<Rightarrow> Cost p > MaxCapacity rl)
               then (Returns (Some TooExpensiveError), r)
               else
                 (let maxAttempts = MaxAttempts watcher in
                  if maxAttempts > 0 \<and> Attempt p \<ge> maxAttempts
                  then (Returns (Some TooManyAttemptsError), r)
                  else
                    (let r1 = incTarget (ucast (Cost p)) r;
                         q = \<lparr>Watcher = watcher, Cost = Cost p, Attempt = Attempt p,
                              IsBatchable = IsBatchable p\<rparr>;
                         res = buffer_Enqueue q (errorOnFullBuffer r1) (buffer r1)
                     in (fst res, r1\<lparr>buffer := snd res\<rparr>)))))"

subsection \<open>Phase changes requested by the caller\<close>

text \<open>
  \<^verbatim>\<open>Pause\<close>, \<^verbatim>\<open>resume\<close>, \<^verbatim>\<open>Start\<close> and \<^verbatim>\<open>Stop\<close> begin with \<^verbatim>\<open>r.phaseMutex.Lock()\<close>. A call
  that has no result in Go gives here whether it returned (\<open>True\<close>) or waits for the
  mutex for ever.
\<close>

definition Pause :: "batcher \<Rightarrow> bool \<times> batcher" where
  "Pause r =
     (if phaseMutex r then (False, r)
      else if phase r \<noteq> batcherPhaseStarted then (True, r)
      else (True, r\<lparr>pause := True, phase := batcherPhasePaused\<rparr>))"

definition resume :: "batcher \<Rightarrow> bool \<times> batcher" where
  "resume r =
     (if phaseMutex r then (False, r)
      else if phase r = batcherPhasePaused then (True, r\<lparr>phase := batcherPhaseStarted\<rparr>)
      else (True, r))"

definition Flush :: "batcher \<Rightarrow> batcher" where
  "Flush r = r\<lparr>flush := True\<rparr>"

definition OperationsInBuffer :: "batcher \<Rightarrow> uint32" where
  "OperationsInBuffer r = buffer_Size (buffer r)"

subsection \<open>Admission slots\<close>

definition tryReserveBatchSlot :: "batcher \<Rightarrow> bool \<times> batcher" where
  "tryReserveBatchSlot r =
     (if maxConcurrentBatches r = 0 then (True, r)
      else (case inflight r of
              None \<Rightarrow> (False, r)
            | Some c \<Rightarrow> (fst (try_send c), r\<lparr>inflight := Some (snd (try_send c))\<rparr>)))"

text \<open>
  \<^verbatim>\<open>releaseBatchSlot\<close> receives from the channel without a \<^verbatim>\<open>default\<close> branch: the
  result says whether the call returned (\<open>True\<close>) or its goroutine is parked in the
  receive. A receive from the nil channel parks forever.
\<close>

definition releaseBatchSlot :: "batcher \<Rightarrow> bool \<times> batcher" where
  "releaseBatchSlot r =
     (if maxConcurrentBatches r > 0
      then (case inflight r of
              None \<Rightarrow> (False, r)
            | Some c \<Rightarrow> (fst (recv c), r\<lparr>inflight := Some (snd (recv c))\<rparr>))
      else (True, r))"

function drain :: "bool \<Rightarrow> chan \<Rightarrow> bool \<times> chan" where
  "drain isZero c =
     (if fst (try_recv c) then drain False (snd (try_recv c)) else (isZero, c))"
  by pat_completeness auto
termination
  by (relation "measure (\<lambda>(isZero, c). len c)") (auto simp: try_recv_def split: if_splits)

declare drain.simps [simp del]

definition confirmInflightIsZero :: "batcher \<Rightarrow> bool \<times> batcher" where
  "confirmInflightIsZero r =
     (case inflight r of
        None \<Rightarrow> (True, r)
      | Some c \<Rightarrow> (fst (drain True c), r\<lparr>inflight := Some (snd (drain True c))\<rparr>))"

definition Inflight :: "batcher \<Rightarrow> uint32" where
  "Inflight r = (case inflight r of None \<Rightarrow> 0 | Some c \<Rightarrow> word_of_nat (len c))"

subsection \<open>Dispatching a batch\<close>

text \<open>
  Modelled from the spec: \<^verbatim>\<open>MakeAttempt\<close> belongs to the operation, whose source is not
  given; the spec says that \<open>attempt\<close> is incremented exactly once when the batch
  containing the operation is dispatched.
\<close>

definition MakeAttempt :: "watcher operation \<Rightarrow> watcher operation" where
  "MakeAttempt op = op\<lparr>Attempt := Attempt op + 1\<rparr>"

text \<open>
  \<^verbatim>\<open>processBatch\<close> at time \<open>now\<close>: an empty batch returns at once; otherwise the goroutine
  is spawned. Its first loop (the attempts) is taken with the spawn; the rest of it, from
  the end of \<^verbatim>\<open>ProcessBatch\<close> or of the timer on, is \<open>batch_done\<close>.
\<close>

definition processBatch :: "int \<Rightarrow> watcher \<Rightarrow> batch \<Rightarrow> batcher \<Rightarrow> batcher" where
  "processBatch now watcher batch r =
     (if length batch = 0 then r
      else r\<lparr>lastFlushWithRecords := Some now,
             running := running r @ [(watcher, map MakeAttempt batch)],
             launched := launched r @ [(watcher, batch)]\<rparr>)"

definition total_cost :: "batch \<Rightarrow> go_int" where
  "total_cost batch = foldl (\<lambda>total op. total + ucast (Cost op)) 0 batch"

definition batch_done :: "nat \<Rightarrow> batcher \<Rightarrow> batcher" where
  "batch_done i r =
     (if i < length (running r)
      then (let total = total_cost (snd (running r ! i));
                r1 = incTarget (- total) r;
                r2 = snd (releaseBatchSlot r1)
            in r2\<lparr>running := take i (running r2) @ drop (Suc i) (running r2)\<rparr>)
      else r)"

subsection \<open>The arithmetic of \<^verbatim>\<open>float64\<close>\<close>

text \<open>
  The flush pass computes its capacity in \<^verbatim>\<open>float64\<close>. A finite \<^verbatim>\<open>float64\<close> is the
  rational number it denotes, and an arithmetic operation is the exact operation followed
  by rounding to a significand of 53 bits, to nearest with ties to even (IEEE 754). The
  exponent is not bounded here: the values of the flush pass (a \<^verbatim>\<open>uint32\<close> divided by 1000,
  times a count of milliseconds) are zero or between \<open>10\<^sup>-\<^sup>3\<close> and \<open>10\<^sup>2\<^sup>0\<close> in magnitude, far
  from overflow and from the subnormal numbers.
\<close>

type_synonym float64 = rat

function bit_length :: "int \<Rightarrow> int" where
  "bit_length n = (if n \<le> 0 then 0 else 1 + bit_length (n div 2))"
  by pat_completeness auto
termination
  by (relation "measure nat") auto

declare bit_length.simps [simp del]

text \<open>The exponent of a positive rational: the \<open>e\<close> with \<open>2\<^sup>e \<le> x < 2\<^sup>e\<^sup>+\<^sup>1\<close>.\<close>

definition ilog2 :: "rat \<Rightarrow> int" where
  "ilog2 x = (if 1 \<le> x then bit_length \<lfloor>x\<rfloor> - 1 else - bit_length (\<lceil>1 / x\<rceil> - 1))"

definition round_to_even :: "rat \<Rightarrow> int" where
  "round_to_even x =
     (let f = \<lfloor>x\<rfloor>; d = x - of_int f
      in if d < 1 / 2 then f
         else if 1 / 2 < d then f + 1
         else if even f then f else f + 1)"

definition float64_round :: "rat \<Rightarrow> float64" where
  "float64_round x =
     (if x = 0 then 0
      else (let e = ilog2 \<bar>x\<bar> - 52
            in sgn x * of_int (round_to_even (\<bar>x\<bar> / 2 powi e)) * 2 powi e))"

definition float64_div :: "float64 \<Rightarrow> float64 \<Rightarrow> float64" where
  "float64_div x y = float64_round (x / y)"

definition float64_mul :: "float64 \<Rightarrow> float64 \<Rightarrow> float64" where
  "float64_mul x y = float64_round (x * y)"

definition float64_of_uint32 :: "uint32 \<Rightarrow> float64" where
  "float64_of_uint32 w = float64_round (of_int (uint w))"

definition float64_of_int64 :: "int \<Rightarrow> float64" where
  "float64_of_int64 k = float64_round (of_int k)"

text \<open>
  \<^verbatim>\<open>uint32(f)\<close> discards the fraction. For a value outside the range of \<^verbatim>\<open>uint32\<close> Go
  leaves the result to the implementation. The amd64 compiler converts to a 64-bit
  integer and keeps its low 32 bits; a value that does not fit the 64-bit integer
  converts to \<open>-2\<^sup>6\<^sup>3\<close>, whose low 32 bits are 0.
\<close>

definition uint32_of_float64 :: "float64 \<Rightarrow> uint32" where
  "uint32_of_float64 x =
     (let t = (if x < 0 then - \<lfloor>- x\<rfloor> else \<lfloor>x\<rfloor>)
      in if - (2 ^ 63) \<le> t \<and> t < 2 ^ 63 then word_of_int t else 0)"

subsection \<open>The flush pass\<close>

text \<open>
  \<^verbatim>\<open>capacity += uint32(float64(r.ratelimiter.Capacity()) / 1000.0 *
  float64(r.flushInterval.Milliseconds()))\<close>, on a \<open>capacity\<close> that starts at zero.
\<close>

definition flush_capacity :: "batcher \<Rightarrow> uint32" where
  "flush_capacity r =
     (case ratelimiter r of
        None \<Rightarrow> 0
      | Some rl \<Rightarrow>
          0 + uint32_of_float64
                (float64_mul (float64_div (float64_of_uint32 (Capacity rl)) 1000)
                   (float64_of_int64 (Milliseconds (flushInterval r)))))"

text \<open>
  The local variables of the pass: the cursor operation \<open>op\<close>, the map \<open>batches\<close> from
  watchers to the batch collected so far (an association list in order of first
  insertion; a key whose batch was dispatched keeps the nil slice \<open>[]\<close>), the cost
  \<open>consumed\<close>, and the batcher \<open>self\<close>.
\<close>

record flush_locals =
  op :: "watcher operation option"
  batches :: "(watcher \<times> batch) list"
  consumed :: uint32
  self :: batcher

datatype 'a iteration = Break 'a | Continue 'a

definition skip_op :: "flush_locals \<Rightarrow> flush_locals" where
  "skip_op s =
     (let res = buffer_Skip (buffer (self s))
      in s\<lparr>op := fst res, self := (self s)\<lparr>buffer := snd res\<rparr>\<rparr>)"

definition remove_op :: "flush_locals \<Rightarrow> flush_locals" where
  "remove_op s =
     (let res = buffer_Remove (buffer (self s))
      in s\<lparr>op := fst res, self := (self s)\<lparr>buffer := snd res\<rparr>\<rparr>)"

text \<open>
  One iteration of the \<^verbatim>\<open>for\<close> loop. In the batchable case \<^verbatim>\<open>tryReserveBatchSlot\<close> is
  called only when the watcher has no batch yet (Go's \<^verbatim>\<open>&&\<close> is short-circuit).
\<close>

definition flush_iteration ::
  "int \<Rightarrow> bool \<Rightarrow> uint32 \<Rightarrow> flush_locals \<Rightarrow> flush_locals iteration" where
  "flush_iteration now enforceCapacity capacity s =
     (if enforceCapacity \<and> consumed s > capacity then Break s
      else (case op s of
        None \<Rightarrow> Break s
      | Some p \<Rightarrow>
          if IsBatchable p then
            (let watcher = Watcher p;
                 batch = (case map_of (batches s) watcher of None \<Rightarrow> [] | Some b \<Rightarrow> b);
                 res = (if batch = [] then tryReserveBatchSlot (self s) else (True, self s))
             in if \<not> fst res then Continue (skip_op (s\<lparr>self := snd res\<rparr>))
                else
                  (let s1 = s\<lparr>self := snd res, consumed := consumed s + Cost p\<rparr>;
                       batch1 = batch @ [p];
                       max = MaxBatchSize watcher;
                       s2 = (if max > 0 \<and> length batch1 \<ge> unat max
                             then s1\<lparr>self := processBatch now watcher batch1 (self s1),
                                    batches := AList.update watcher [] (batches s1)\<rparr>
                             else s1\<lparr>batches := AList.update watcher batch1 (batches s1)\<rparr>)
                   in Continue (remove_op s2)))
          else
            (let res = tryReserveBatchSlot (self s)
             in if fst res
                then (let s1 = s\<lparr>self := snd res, consumed := consumed s + Cost p\<rparr>;
                          s2 = s1\<lparr>self := processBatch now (Watcher p) [p] (self s1)\<rparr>
                      in Continue (remove_op s2))
                else Continue (skip_op (s\<lparr>self := snd res\<rparr>)))))"

definition remaining :: "flush_locals \<Rightarrow> nat" where
  "remaining s =
     (case op s of
        None \<Rightarrow> 0
      | Some p \<Rightarrow> Suc (length (items (buffer (self s))) - cursor (buffer (self s))))"

function flush_loop :: "int \<Rightarrow> bool \<Rightarrow> uint32 \<Rightarrow> flush_locals \<Rightarrow> flush_locals" where
  "flush_loop now enforceCapacity capacity s =
     (case flush_iteration now enforceCapacity capacity s of
        Break s' \<Rightarrow> s'
      | Continue s' \<Rightarrow> flush_loop now enforceCapacity capacity s')"
  by pat_completeness auto
termination
proof (relation "measure (\<lambda>(now, e, c, s). remaining s)")
  show "wf (measure (\<lambda>(now, e, c, s). remaining s))" by simp
next
  fix now e c s s'
  assume step: "flush_iteration now e c s = Continue s'"
  have skip: "remaining (skip_op t) < remaining s"
    if "op t = op s" "buffer (self t) = buffer (self s)" "op s \<noteq> None" for t
    using that
    by (auto simp: remaining_def skip_op_def buffer_Skip_def at_cursor_def Let_def
        split: option.splits if_splits)
  have remove: "remaining (remove_op t) < remaining s"
    if "op t = op s" "buffer (self t) = buffer (self s)" "op s \<noteq> None" for t
    using that
    by (auto simp: remaining_def remove_op_def buffer_Remove_def at_cursor_def Let_def
        split: option.splits if_splits)
  have reserve: "buffer (snd (tryReserveBatchSlot r)) = buffer r" for r
    by (simp add: tryReserveBatchSlot_def split: option.splits)
  have process: "buffer (processBatch now w b r) = buffer r" for w b r
    by (simp add: processBatch_def)
  have "remaining s' < remaining s"
    using step
    by (auto simp: flush_iteration_def Let_def reserve process
        split: if_splits option.splits intro!: skip remove)
  then show "((now, e, c, s'), (now, e, c, s)) \<in> measure (\<lambda>(now, e, c, s). remaining s)"
    by simp
qed

declare flush_loop.simps [simp del]

text \<open>
  The pass up to the end of the \<^verbatim>\<open>for\<close> loop, started by \<^verbatim>\<open>r.buffer.Top()\<close>.
\<close>

definition flush_run :: "int \<Rightarrow> batcher \<Rightarrow> flush_locals" where
  "flush_run now r =
     (let enforceCapacity = (ratelimiter r \<noteq> None);
          capacity = flush_capacity r;
          top = buffer_Top (buffer r)
      in flush_loop now enforceCapacity capacity
           \<lparr>op = fst top, batches = [], consumed = 0, self = r\<lparr>buffer := snd top\<rparr>\<rparr>)"

text \<open>
  After the loop every batch of the map goes to \<^verbatim>\<open>processBatch\<close>, which drops the empty
  ones. Go ranges over a map in an order that changes from run to run; \<open>residual\<close> sends
  the batches in the order of the list it is given, and \<open>flush_pass\<close> gives it the map in
  the order of first insertion. The order among the residual batches of different
  watchers is therefore one of those the code can take, and nothing below depends on it
  (\<open>residual_any_order\<close>).
\<close>

definition residual :: "int \<Rightarrow> (watcher \<times> batch) list \<Rightarrow> batcher \<Rightarrow> batcher" where
  "residual now bs r = foldl (\<lambda>r' wb. processBatch now (fst wb) (snd wb) r') r bs"


definition flush_pass :: "int \<Rightarrow> batcher \<Rightarrow> batcher" where
  "flush_pass now r =
     (let s = flush_run now r
      in residual now (batches s) (self s))"

subsection \<open>Start, Stop and the processing loop\<close>

text \<open>
  Every batcher comes from \<^verbatim>\<open>NewBatcherWithBuffer\<close>, which allocates the buffer, so
  of the test \<^verbatim>\<open>r.buffer == nil || r.buffer.Max() == 0\<close> the second half decides.
\<close>

definition Start :: "batcher \<Rightarrow> outcome \<times> batcher" where
  "Start r =
     (if phaseMutex r then (Blocks, r)
      else if phase r \<noteq> batcherPhaseUninitialized
      then (Returns (Some BatcherImproperOrderError), r)
      else if buffer_Max (buffer r) = 0 then (Returns (Some BufferNotAllocated), r)
      else (Returns None, (applyDefaults r)\<lparr>stop := stop_open, looping := True,
                                             phase := batcherPhaseStarted\<rparr>))"

text \<open>The deferred function of the loop's goroutine.\<close>

definition shutdown :: "batcher \<Rightarrow> batcher" where
  "shutdown r = r\<lparr>buffer := buffer_Clear (buffer r), looping := False\<rparr>"

text \<open>
  \<^verbatim>\<open>Stop\<close> locks the mutex and keeps it (the unlock is deferred) while it closes the stop
  channel, if there is one, and waits in \<^verbatim>\<open>r.shutdown.Wait()\<close> for the loop to return.
  Without a loop the wait is over at once. A loop that is inside its pause case goes on
  to \<^verbatim>\<open>resume\<close>, which needs the mutex that \<^verbatim>\<open>Stop\<close> holds: neither returns, and the phase
  stays as it is. A loop that is at its \<^verbatim>\<open>select\<close> with a pause record waiting finds
  both the pause and the stop channel ready, and Go chooses between ready cases at
  random: \<open>pause_first\<close> is that choice. Otherwise the loop takes the stop case and runs
  its deferred function, and \<^verbatim>\<open>Stop\<close> sets the phase. The result says whether \<^verbatim>\<open>Stop\<close>
  returned.
\<close>

definition Stop :: "bool \<Rightarrow> batcher \<Rightarrow> bool \<times> batcher" where
  "Stop pause_first r =
     (if phaseMutex r then (False, r)
      else if phase r = batcherPhaseStopped then (True, r)
      else (let r1 = (if stop r \<noteq> stop_nil then r\<lparr>stop := stop_closed\<rparr> else r)
            in if \<not> looping r1 then (True, r1\<lparr>phase := batcherPhaseStopped\<rparr>)
               else if stop r = stop_nil then (False, r1\<lparr>phaseMutex := True\<rparr>)
               else if sleeping r1 \<or> (pause r1 \<and> pause_first)
               then (False, r1\<lparr>pause := False, sleeping := True, phaseMutex := True\<rparr>)
               else (True, (shutdown r1)\<lparr>phase := batcherPhaseStopped\<rparr>)))"

text \<open>
  The cases of the loop's \<^verbatim>\<open>select\<close>, each enabled only while the loop runs and is not
  inside its pause case. The pause case is two steps: \<open>on_pause\<close> receives the record and
  begins the sleep, \<open>pause_over\<close> is the call of \<^verbatim>\<open>resume\<close> after the sleep, which waits
  while the mutex is held. The flush case receives from its channel. \<^verbatim>\<open>time.Since\<close> of
  the zero time is the largest duration.
\<close>

definition on_pause :: "batcher \<Rightarrow> batcher" where
  "on_pause r =
     (if looping r \<and> \<not> sleeping r \<and> pause r then r\<lparr>pause := False, sleeping := True\<rparr>
      else r)"

definition pause_over :: "batcher \<Rightarrow> batcher" where
  "pause_over r =
     (if looping r \<and> sleeping r \<and> fst (resume r) then (snd (resume r))\<lparr>sleeping := False\<rparr>
      else r)"

definition since :: "int \<Rightarrow> batcher \<Rightarrow> duration" where
  "since now r = (case lastFlushWithRecords r of None \<Rightarrow> 2 ^ 63 - 1 | Some t \<Rightarrow> now - t)"

definition on_audit :: "int \<Rightarrow> batcher \<Rightarrow> batcher" where
  "on_audit now r =
     (if looping r \<and> \<not> sleeping r \<and> buffer_Size (buffer r) = 0 \<and>
         since now r > maxOperationTime r
      then snd (confirmInflightIsZero (snd (confirmTargetIsZero r)))
      else r)"

text \<open>
  The capacity tick hands \<^verbatim>\<open>NeedsCapacity()\<close> to the rate limiter's \<^verbatim>\<open>GiveMe\<close>, which
  is outside the batcher: the request is the result, the batcher stays as it is.
\<close>

definition capacity_request :: "batcher \<Rightarrow> uint32 option" where
  "capacity_request r =
     (if looping r \<and> \<not> sleeping r \<and> ratelimiter r \<noteq> None then Some (NeedsCapacity r)
      else None)"

definition on_flush_timer :: "batcher \<Rightarrow> batcher" where
  "on_flush_timer r = (if looping r \<and> \<not> sleeping r then Flush r else r)"

definition on_flush :: "int \<Rightarrow> batcher \<Rightarrow> batcher" where
  "on_flush now r =
     (if looping r \<and> \<not> sleeping r \<and> flush r then flush_pass now (r\<lparr>flush := False\<rparr>)
      else r)"

subsection \<open>Runs of a batcher\<close>

text \<open>
  What can happen to a batcher: a call of a public method, a case of the processing
  loop (the pause case in its two halves), or the end of a dispatched batch. A run is a
  sequence of these from a new batcher; the methods and the goroutines interleave at
  this grain.
\<close>

datatype action =
    CallWithRateLimiter "ratelimiter option"
  | CallWithFlushInterval duration
  | CallWithCapacityInterval duration
  | CallWithAuditInterval duration
  | CallWithMaxOperationTime duration
  | CallWithPauseTime duration
  | CallWithErrorOnFullBuffer
  | CallWithEmitBatch
  | CallWithEmitFlush
  | CallWithMaxConcurrentBatches uint32
  | CallEnqueue IOperation
  | CallPause
  | CallFlush
  | CallStart
  | CallStop bool
  | PauseSignal
  | PauseOver
  | AuditTick int
  | CapacityTick
  | FlushTick
  | FlushSignal int
  | BatchDone nat

fun step :: "action \<Rightarrow> batcher \<Rightarrow> batcher" where
  "step (CallWithRateLimiter rl) r = WithRateLimiter rl r"
| "step (CallWithFlushInterval val) r = WithFlushInterval val r"
| "step (CallWithCapacityInterval val) r = WithCapacityInterval val r"
| "step (CallWithAuditInterval val) r = WithAuditInterval val r"
| "step (CallWithMaxOperationTime val) r = WithMaxOperationTime val r"
| "step (CallWithPauseTime val) r = WithPauseTime val r"
| "step CallWithErrorOnFullBuffer r = WithErrorOnFullBuffer r"
| "step CallWithEmitBatch r = WithEmitBatch r"
| "step CallWithEmitFlush r = WithEmitFlush r"
| "step (CallWithMaxConcurrentBatches val) r = WithMaxConcurrentBatches val r"
| "step (CallEnqueue p) r = snd (Enqueue p r)"
| "step CallPause r = snd (Pause r)"
| "step CallFlush r = Flush r"
| "step CallStart r = snd (Start r)"
| "step (CallStop pause_first) r = snd (Stop pause_first r)"
| "step PauseSignal r = on_pause r"
| "step PauseOver r = pause_over r"
| "step (AuditTick now) r = on_audit now r"
| "step CapacityTick r = r"
| "step FlushTick r = on_flush_timer r"
| "step (FlushSignal now) r = on_flush now r"
| "step (BatchDone i) r = batch_done i r"

definition run :: "action list \<Rightarrow> batcher \<Rightarrow> batcher" where
  "run acts r = foldl (\<lambda>r' a. step a r') r acts"

subsection \<open>The preconditions of Enqueue, as the specification words them\<close>

text \<open>
  The specification lists the preconditions of \<open>enqueue\<close> in order, each with its own
  error: the operation is present; it has a consumer; if a rate limiter is attached, its
  cost is at most the limiter's \<open>max_capacity\<close>; if the consumer's \<open>max_attempts\<close> is
  positive, its attempt count is below it. \<open>spec_enqueue_error\<close> is the error of the first
  precondition that fails, \<open>None\<close> when all hold.
\<close>

definition spec_enqueue_error :: "batcher \<Rightarrow> IOperation \<Rightarrow> error option" where
  "spec_enqueue_error r p =
     (case p of
        None \<Rightarrow> Some NoOperationError
      | Some q \<Rightarrow>
          (case Watcher q of
             None \<Rightarrow> Some NoWatcherError
           | Some w \<Rightarrow>
               if (case ratelimiter r of None \<Rightarrow> False | Some rl \<Rightarrow> MaxCapacity rl < Cost q)
               then Some TooExpensiveError
               else if 0 < MaxAttempts w \<and> MaxAttempts w \<le> Attempt q
               then Some TooManyAttemptsError
               else None))"

text \<open>The operation \<open>q\<close> as it stands in the buffer, with its watcher \<open>w\<close>.\<close>

definition queued :: "watcher option operation \<Rightarrow> watcher \<Rightarrow> watcher operation" where
  "queued q w = \<lparr>Watcher = w, Cost = Cost q, Attempt = Attempt q, IsBatchable = IsBatchable q\<rparr>"

subsection \<open>The batches of one flush pass\<close>

text \<open>
  What a flush pass hands to \<^verbatim>\<open>processBatch\<close> and \<^verbatim>\<open>processBatch\<close> launches: the batches
  that the pass adds to \<open>launched\<close>, in order.
\<close>

definition dispatched :: "int \<Rightarrow> batcher \<Rightarrow> (watcher \<times> batch) list" where
  "dispatched now r = drop (length (launched r)) (launched (flush_pass now r))"

subsection \<open>Watchers, operations and batchers of the examples\<close>

definition example_watcher :: "nat \<Rightarrow> uint32 \<Rightarrow> uint32 \<Rightarrow> watcher" where
  "example_watcher i maxBatch maxAttempts =
     \<lparr>wid = i, MaxBatchSize = maxBatch, MaxAttempts = maxAttempts, MaxOperationTime = 0\<rparr>"

definition example_op :: "watcher option \<Rightarrow> uint32 \<Rightarrow> uint32 \<Rightarrow> bool \<Rightarrow> watcher option operation" where
  "example_op w c a b = \<lparr>Watcher = w, Cost = c, Attempt = a, IsBatchable = b\<rparr>"

definition example_limiter :: "uint32 \<Rightarrow> uint32 \<Rightarrow> ratelimiter" where
  "example_limiter c m = \<lparr>Capacity = c, MaxCapacity = m\<rparr>"

definition limited_batcher :: batcher where
  "limited_batcher = WithRateLimiter (Some (example_limiter 100 8)) NewBatcher"

text \<open>A batcher that returns an error on a full buffer, with its one place taken.\<close>

definition full_batcher :: batcher where
  "full_batcher =
     snd (Enqueue (Some (example_op (Some (example_watcher 1 0 0)) 5 0 True))
            (WithErrorOnFullBuffer (NewBatcherWithBuffer 1)))"

text \<open>One batchable operation, enqueued and flushed, with no limit on concurrent batches.\<close>

definition one_outstanding :: batcher where
  "one_outstanding =
     run [CallEnqueue (Some (example_op (Some (example_watcher 1 0 0)) 1 0 True)),
          CallStart, CallFlush, FlushSignal 0] NewBatcher"


subsection \<open>The invariant of the inflight channel\<close>

text \<open>
  The channel is nil only while the maximum is zero; otherwise its capacity is the
  maximum, it holds no more than its capacity, and a goroutine waits in a receive only
  while it is empty.
\<close>

fun chan_inv :: "chan option \<Rightarrow> uint32 \<Rightarrow> bool" where
  "chan_inv None m = (m = 0)"
| "chan_inv (Some c) m = (cap c = unat m \<and> len c \<le> cap c \<and> (0 < recvq c \<longrightarrow> len c = 0))"

definition chan_ok :: "batcher \<Rightarrow> bool" where
  "chan_ok r = chan_inv (inflight r) (maxConcurrentBatches r)"

text \<open>Seven batchable operations of cost 1 for one watcher with \<^verbatim>\<open>MaxBatchSize\<close> 3, no rate limiter.\<close>

definition unit_op :: "watcher option operation" where
  "unit_op = example_op (Some (example_watcher 1 3 0)) 1 0 True"

definition seven_enqueued :: batcher where
  "seven_enqueued = run (replicate 7 (CallEnqueue (Some unit_op)) @ [CallStart]) NewBatcher"

subsection \<open>The invariant of the batch sizes\<close>

text \<open>
  A dispatched batch fits when its watcher has no maximum or the batch is no longer than
  the maximum; a batch still collected in the map has room when it is shorter. \<open>n\<close> is the
  length of \<open>launched\<close> when the pass began.
\<close>

definition fits :: "watcher \<times> batch \<Rightarrow> bool" where
  "fits wb = (MaxBatchSize (fst wb) = 0 \<or> length (snd wb) \<le> unat (MaxBatchSize (fst wb)))"

definition has_room :: "watcher \<times> batch \<Rightarrow> bool" where
  "has_room wb = (MaxBatchSize (fst wb) = 0 \<or> length (snd wb) < unat (MaxBatchSize (fst wb)))"

definition sizes_ok :: "nat \<Rightarrow> flush_locals \<Rightarrow> bool" where
  "sizes_ok n s =
     (n \<le> length (launched (self s)) \<and> list_all fits (drop n (launched (self s))) \<and>
      list_all has_room (batches s))"

text \<open>
  A rate limiter whose capacity is 0 and two operations that cannot be batched, of costs
  5 and 6.
\<close>

definition zero_capacity :: batcher where
  "zero_capacity =
     run [CallWithRateLimiter (Some (example_limiter 0 100)),
          CallEnqueue (Some (example_op (Some (example_watcher 1 0 0)) 5 0 False)),
          CallEnqueue (Some (example_op (Some (example_watcher 1 0 0)) 6 0 False)),
          CallStart] NewBatcher"

subsection \<open>The operations of a list of batches\<close>

definition ops_of :: "(watcher \<times> batch) list \<Rightarrow> watcher operation set" where
  "ops_of bs = set (concat (map snd bs))"

text \<open>
  During a pass that began with \<open>n\<close> launched batches, the operation \<open>p\<close> is carried when
  it is in a batch launched since or in a batch of the map.
\<close>

definition carried :: "nat \<Rightarrow> watcher operation \<Rightarrow> flush_locals \<Rightarrow> bool" where
  "carried n p s =
     (n \<le> length (launched (self s)) \<and>
      (p \<in> ops_of (drop n (launched (self s))) \<or> p \<in> ops_of (batches s)))"

text \<open>
  A batcher with a rate limiter of capacity \<open>c\<close> and a flush interval of 100 ms, and fifty
  batchable operations of cost 10 for one watcher without a maximum batch size.
\<close>

definition limited_to :: "uint32 \<Rightarrow> batcher" where
  "limited_to c =
     run [CallWithRateLimiter (Some (example_limiter c 1000)),
          CallWithFlushInterval (100 * Millisecond)] NewBatcher"

definition ten_op :: "watcher option operation" where
  "ten_op = example_op (Some (example_watcher 1 0 0)) 10 0 True"

definition fifty_enqueued :: batcher where
  "fifty_enqueued =
     run (map (\<lambda>q. CallEnqueue (Some q)) (replicate 50 ten_op) @ [CallStart])
       (limited_to 1000)"

subsection \<open>The capacity of a pass, as the specification words it\<close>

text \<open>
  The specification: \<open>capacity = floor(rate_limiter.capacity() * flush_interval_ms / 1000)\<close>.
\<close>

definition spec_flush_capacity :: "uint32 \<Rightarrow> int \<Rightarrow> int" where
  "spec_flush_capacity capacity flush_interval_ms =
     \<lfloor>(of_int (uint capacity) * of_int flush_interval_ms / 1000 :: rat)\<rfloor>"

subsection \<open>The invariant of the phase\<close>

text \<open>
  The fields that the phase changes read and write. In every run the loop is inside its
  pause case only while it runs and the phase is Paused, with the pause record taken;
  the mutex is held for ever only over such a loop; a pause record waits only in the
  phases Paused and Stopped; and a running loop has its stop channel and is not Stopped.
\<close>

definition control :: "batcher \<Rightarrow> phase \<times> bool \<times> bool \<times> bool \<times> bool \<times> stop_chan" where
  "control r = (phase r, pause r, sleeping r, phaseMutex r, looping r, stop r)"


text \<open>
  A batcher with room for one operation that returns an error when full, after an
  enqueue of cost \<open>2\<^sup>3\<^sup>2 - 1\<close>; and an operation of cost 1.
\<close>

definition nearly_wrapped :: batcher where
  "nearly_wrapped =
     run [CallWithErrorOnFullBuffer,
          CallEnqueue (Some (example_op (Some (example_watcher 1 0 0)) 0xFFFFFFFF 0 True))]
       (NewBatcherWithBuffer 1)"

definition one_more :: "watcher option operation" where
  "one_more = example_op (Some (example_watcher 1 0 0)) 1 0 True"

section \<open>Properties of the target\<close>

lemma uint_mod32_sint: "uint (d :: go_int) mod 2 ^ 32 = sint d mod 2 ^ 32"
proof -
  have "uint d = take_bit 64 (sint d)" by (simp add: uint_sint)
  then have "uint d mod 2 ^ 32 = take_bit 32 (take_bit 64 (sint d))"
    by (simp add: take_bit_eq_mod)
  also have "\<dots> = take_bit 32 (sint d)" by simp
  finally show ?thesis by (simp add: take_bit_eq_mod)
qed

lemma uint_ucast_int: "uint (ucast (d :: go_int) :: uint32) = sint d mod 2 ^ 32"
proof -
  have "uint (ucast d :: uint32) = take_bit 32 (uint d)"
    by (simp add: unsigned_ucast_eq)
  then show ?thesis using uint_mod32_sint [of d] by (simp add: take_bit_eq_mod)
qed

lemma uint_ucast_neg_int: "uint (ucast (- (d :: go_int)) :: uint32) = (- sint d) mod 2 ^ 32"
proof -
  have "uint (ucast (- d) :: uint32) = take_bit 32 (uint (- d))"
    by (simp add: unsigned_ucast_eq)
  also have "\<dots> = ((- uint d) mod 2 ^ 64) mod 2 ^ 32"
    by (simp add: take_bit_eq_mod uint_word_ariths)
  also have "\<dots> = (- uint d) mod 2 ^ 32"
    by (rule mod_mod_cancel) simp
  also have "\<dots> = (- sint d) mod 2 ^ 32"
    by (metis uint_mod32_sint mod_minus_eq)
  finally show ?thesis .
qed

lemma incTarget_negative:
  assumes "sint d < 0" "- (2 ^ 32) < sint d"
  shows "uint (target (incTarget d r)) =
           (if 0 \<le> uint (target r) + sint d then uint (target r) + sint d else 0)"
proof -
  have a: "uint (ucast (- d) :: uint32) = - sint d"
    using assms by (simp add: uint_ucast_neg_int)
  have b: "uint (ucast d :: uint32) = sint d + 2 ^ 32"
  proof -
    have "sint d mod 2 ^ 32 = (sint d + 2 ^ 32) mod 2 ^ 32" by simp
    also have "\<dots> = sint d + 2 ^ 32" using assms by (intro mod_pos_pos_trivial) auto
    finally show ?thesis by (simp add: uint_ucast_int)
  qed
  have t: "0 \<le> uint (target r)" "uint (target r) < 2 ^ 32"
    using uint_bounded [of "target r"] by simp_all
  show ?thesis
  proof (cases "0 \<le> uint (target r) + sint d")
    case True
    then have le: "ucast (- d) \<le> target r" by (simp add: word_le_def a)
    have "uint (target r + ucast d) = (uint (target r) + (sint d + 2 ^ 32)) mod 2 ^ 32"
      by (simp add: uint_word_ariths b)
    also have "\<dots> = (uint (target r) + sint d) mod 2 ^ 32"
      by (simp add: add.assoc [symmetric])
    also have "\<dots> = uint (target r) + sint d"
      using True t assms by (intro mod_pos_pos_trivial) auto
    finally show ?thesis using True le assms
      by (simp add: incTarget_def word_sless_alt)
  next
    case False
    then have "\<not> ucast (- d) \<le> target r" by (simp add: word_le_def a)
    then show ?thesis using False assms by (simp add: incTarget_def word_sless_alt)
  qed
qed

lemma incTarget_positive:
  assumes "0 < sint d"
  shows "uint (target (incTarget d r)) = (uint (target r) + sint d) mod 2 ^ 32"
proof -
  have "uint (target r + ucast d) = (uint (target r) + sint d mod 2 ^ 32) mod 2 ^ 32"
    by (simp add: uint_word_ariths uint_ucast_int)
  also have "\<dots> = (uint (target r) + sint d) mod 2 ^ 32"
    by (simp add: mod_add_right_eq)
  finally show ?thesis using assms by (simp add: incTarget_def word_sless_alt)
qed

lemma incTarget_zero: "incTarget 0 r = r"
  by (simp add: incTarget_def word_sless_alt)

text \<open>
  Claim C8, as stated: for every target \<open>t\<close> and signed delta \<open>d\<close>, \<^verbatim>\<open>incTarget(d)\<close> sets the
  target to \<open>t + d\<close> when \<open>t + d \<ge> 0\<close> and to 0 otherwise. It fails at the top of the
  \<^verbatim>\<open>uint32\<close> range: from \<open>t = 2\<^sup>3\<^sup>2 - 1\<close> the delta 1 gives 0, not \<open>2\<^sup>3\<^sup>2\<close>.
\<close>

theorem incTarget_clamp_counterexample:
  "uint (target (incTarget 1 (NewBatcher\<lparr>target := 0xFFFFFFFF\<rparr>))) \<noteq>
     (if 0 \<le> uint (0xFFFFFFFF :: uint32) + sint (1 :: go_int)
      then uint (0xFFFFFFFF :: uint32) + sint (1 :: go_int) else 0)"
  by (simp add: incTarget_def NewBatcher_def NewBatcherWithBuffer_def word_sless_alt)

text \<open>
  Claim C8, amended: for every target \<open>t\<close> and every delta \<open>d > -2\<^sup>3\<^sup>2\<close>, \<^verbatim>\<open>incTarget(d)\<close> sets
  the target to \<open>(t + d) mod 2\<^sup>3\<^sup>2\<close> when \<open>t + d \<ge> 0\<close> (which is \<open>t + d\<close> itself below \<open>2\<^sup>3\<^sup>2\<close>) and
  clamps it to 0 when \<open>t + d\<close> is negative; a delta of 0 leaves the batcher unchanged.
\<close>

theorem incTarget_clamps_at_zero:
  assumes "- (2 ^ 32) < sint d"
  shows "uint (target (incTarget d r)) =
           (if 0 \<le> uint (target r) + sint d then (uint (target r) + sint d) mod 2 ^ 32 else 0)
         \<and> incTarget 0 r = r"
proof -
  have t: "0 \<le> uint (target r)" "uint (target r) < 2 ^ 32"
    using uint_bounded [of "target r"] by simp_all
  consider "sint d < 0" | "d = 0" | "0 < sint d"
    by (metis linorder_neqE_linordered_idom signed_eq_0_iff)
  then have "uint (target (incTarget d r)) =
           (if 0 \<le> uint (target r) + sint d then (uint (target r) + sint d) mod 2 ^ 32 else 0)"
  proof cases
    case 1
    have "(uint (target r) + sint d) mod 2 ^ 32 = uint (target r) + sint d"
      if "0 \<le> uint (target r) + sint d"
      using that t 1 by (intro mod_pos_pos_trivial) auto
    then show ?thesis using incTarget_negative [OF 1 assms, of r] by simp
  next
    case 2
    then show ?thesis using t by (simp add: incTarget_zero)
  next
    case 3
    then show ?thesis using t by (simp add: incTarget_positive)
  qed
  then show ?thesis by (simp add: incTarget_zero)
qed

text \<open>A target of 5 less 7 is 0; a target of 12 less 7 is 5.\<close>

theorem incTarget_clamps_at_zero_witness:
  "- (2 ^ 32) < sint (- 7 :: go_int) \<and>
   uint (target (incTarget (- 7) (NewBatcher\<lparr>target := 5\<rparr>))) = 0 \<and>
   uint (target (incTarget (- 7) (NewBatcher\<lparr>target := 12\<rparr>))) = 5"
  using incTarget_clamps_at_zero [of "- 7" "NewBatcher\<lparr>target := 5\<rparr>"]
    incTarget_clamps_at_zero [of "- 7" "NewBatcher\<lparr>target := 12\<rparr>"]
  by (simp add: NewBatcher_def NewBatcherWithBuffer_def)

section \<open>Properties of Enqueue\<close>

lemma sint_ucast_cost: "sint (ucast (c :: uint32) :: go_int) = uint c"
proof -
  have "uint c < 2 ^ 32" using uint_bounded [of c] by simp
  then have hi: "uint c < 2 ^ 63" by simp
  have "(0::int) \<le> uint c" by simp
  then have "- (2 ^ 63) \<le> uint c" by (rule order_trans [rotated]) simp
  from this hi have "signed_take_bit 63 (uint c) = uint c"
    by (rule signed_take_bit_int_eq_self)
  then show ?thesis by (simp add: signed_ucast_eq)
qed

lemma ucast_cost_roundtrip: "(ucast (ucast (c :: uint32) :: go_int) :: uint32) = c"
  by (rule bit_word_eqI) (auto simp add: bit_ucast_iff dest: bit_imp_le_length)

lemma incTarget_cost: "incTarget (ucast (c :: uint32)) r = r\<lparr>target := target r + c\<rparr>"
proof (cases "c = 0")
  case True
  then show ?thesis by (simp add: incTarget_def word_sless_alt)
next
  case False
  then have "0 < uint c"
    using uint_nonnegative [of c] by (simp add: order_less_le uint_0_iff)
  then have "0 < sint (ucast c :: go_int)" by (simp only: sint_ucast_cost)
  then show ?thesis
    by (simp add: incTarget_def word_sless_alt ucast_cost_roundtrip)
qed

lemma Enqueue_rejected:
  "spec_enqueue_error r p = Some e \<Longrightarrow> Enqueue p r = (Returns (Some e), r)"
  by (auto simp: spec_enqueue_error_def Enqueue_def Let_def split: option.splits if_splits)

lemma Enqueue_accepted:
  assumes "spec_enqueue_error r p = None"
  shows "\<exists>q w. p = Some q \<and> Watcher q = Some w \<and>
    Enqueue p r =
       (fst (buffer_Enqueue (queued q w) (errorOnFullBuffer r) (buffer r)),
        r\<lparr>target := target r + Cost q,
          buffer := snd (buffer_Enqueue (queued q w) (errorOnFullBuffer r) (buffer r))\<rparr>)"
proof -
  from assms obtain q where p: "p = Some q"
    by (cases p) (simp_all add: spec_enqueue_error_def)
  from assms p obtain w where w: "Watcher q = Some w"
    by (cases "Watcher q") (simp_all add: spec_enqueue_error_def)
  from assms p w have cheap:
    "\<not> (case ratelimiter r of None \<Rightarrow> False | Some rl \<Rightarrow> MaxCapacity rl < Cost q)"
    by (simp add: spec_enqueue_error_def split: if_splits)
  from assms p w have few: "\<not> (0 < MaxAttempts w \<and> MaxAttempts w \<le> Attempt q)"
    by (simp add: spec_enqueue_error_def split: if_splits)
  have "Enqueue (Some q) r =
       (fst (buffer_Enqueue (queued q w) (errorOnFullBuffer r) (buffer r)),
        r\<lparr>target := target r + Cost q,
          buffer := snd (buffer_Enqueue (queued q w) (errorOnFullBuffer r) (buffer r))\<rparr>)"
    using w cheap few by (simp add: Enqueue_def Let_def incTarget_cost queued_def cong: conj_cong)
  with p w show ?thesis by blast
qed

lemma ratelimiter_Enqueue: "ratelimiter (snd (Enqueue p r)) = ratelimiter r"
proof (cases "spec_enqueue_error r p")
  case None
  from Enqueue_accepted [OF this] obtain q w where
    "Enqueue p r =
       (fst (buffer_Enqueue (queued q w) (errorOnFullBuffer r) (buffer r)),
        r\<lparr>target := target r + Cost q,
          buffer := snd (buffer_Enqueue (queued q w) (errorOnFullBuffer r) (buffer r))\<rparr>)"
    by blast
  then show ?thesis by simp
next
  case (Some e)
  then show ?thesis by (simp add: Enqueue_rejected)
qed

lemma spec_enqueue_error_Enqueue:
  "spec_enqueue_error (snd (Enqueue p r)) p' = spec_enqueue_error r p'"
  unfolding spec_enqueue_error_def ratelimiter_Enqueue by (rule refl)

lemma run_Nil: "run [] r = r"
  by (simp add: run_def)

lemma run_Cons: "run (a # acts) r = run acts (step a r)"
  by (simp add: run_def)

lemma run_append: "run (acts @ acts') r = run acts' (run acts r)"
  by (simp add: run_def)

lemma NeedsCapacity_enqueues:
  "\<forall>q \<in> set qs. spec_enqueue_error r (Some q) = None \<Longrightarrow>
   uint (NeedsCapacity (run (map (CallEnqueue \<circ> Some) qs) r)) =
     (uint (NeedsCapacity r) + (\<Sum>q\<leftarrow>qs. uint (Cost q))) mod 2 ^ 32"
proof (induction qs arbitrary: r)
  case Nil
  have "uint (target r) < 2 ^ 32" using uint_bounded [of "target r"] by simp
  then show ?case by (simp add: run_Nil NeedsCapacity_def)
next
  case (Cons q qs)
  let ?r = "snd (Enqueue (Some q) r)"
  from Cons.prems have ok: "spec_enqueue_error r (Some q) = None" by simp
  from Enqueue_accepted [OF ok] have tgt: "target ?r = target r + Cost q" by auto
  from Cons.prems have "\<forall>q' \<in> set qs. spec_enqueue_error ?r (Some q') = None"
    by (simp add: spec_enqueue_error_Enqueue)
  then have "uint (NeedsCapacity (run (map (CallEnqueue \<circ> Some) qs) ?r)) =
     (uint (NeedsCapacity ?r) + (\<Sum>q\<leftarrow>qs. uint (Cost q))) mod 2 ^ 32"
    by (rule Cons.IH)
  also have "uint (NeedsCapacity ?r) = (uint (target r) + uint (Cost q)) mod 2 ^ 32"
    by (simp add: NeedsCapacity_def tgt uint_word_ariths)
  also have "((uint (target r) + uint (Cost q)) mod 2 ^ 32 + (\<Sum>q\<leftarrow>qs. uint (Cost q))) mod 2 ^ 32
      = (uint (target r) + (uint (Cost q) + (\<Sum>q\<leftarrow>qs. uint (Cost q)))) mod 2 ^ 32"
    by (simp add: mod_add_left_eq add.assoc)
  finally show ?case by (simp add: run_Cons NeedsCapacity_def)
qed

text \<open>
  Claim C10: \<^verbatim>\<open>incTarget\<close> saturates only at zero. For a positive delta the addition to the
  \<^verbatim>\<open>uint32\<close> target wraps modulo \<open>2\<^sup>3\<^sup>2\<close>, so after a sequence of enqueues that all pass the
  checks \<^verbatim>\<open>NeedsCapacity()\<close> is the earlier value plus the total cost, modulo \<open>2\<^sup>3\<^sup>2\<close>: a total
  beyond \<open>2\<^sup>3\<^sup>2 - 1\<close> wraps around to a small number.
\<close>

theorem target_wraps_at_top:
  "(0 < sint d \<longrightarrow> uint (target (incTarget d r)) = (uint (target r) + sint d) mod 2 ^ 32) \<and>
   ((\<forall>q \<in> set qs. spec_enqueue_error r (Some q) = None) \<longrightarrow>
      uint (NeedsCapacity (run (map (CallEnqueue \<circ> Some) qs) r)) =
        (uint (NeedsCapacity r) + (\<Sum>q\<leftarrow>qs. uint (Cost q))) mod 2 ^ 32)"
  using incTarget_positive [of d r] NeedsCapacity_enqueues [of qs r] by blast

text \<open>
  From \<open>2\<^sup>3\<^sup>2 - 1\<close> the delta 1 gives 0; two enqueues of costs \<open>2\<^sup>3\<^sup>1\<close> and \<open>2\<^sup>3\<^sup>1 + 1\<close> on a new
  batcher leave \<^verbatim>\<open>NeedsCapacity()\<close> at 1.
\<close>

theorem target_wraps_at_top_witness:
  "uint (target (incTarget 1 (NewBatcher\<lparr>target := 0xFFFFFFFF\<rparr>))) = 0 \<and>
   uint (NeedsCapacity (run (map (CallEnqueue \<circ> Some)
      [example_op (Some (example_watcher 1 0 0)) 0x80000000 0 True,
       example_op (Some (example_watcher 1 0 0)) 0x80000001 0 True]) NewBatcher)) = 1"
  using target_wraps_at_top [of 1 "NewBatcher\<lparr>target := 0xFFFFFFFF\<rparr>" "[]"]
    target_wraps_at_top [of 1 NewBatcher
      "[example_op (Some (example_watcher 1 0 0)) 0x80000000 0 True,
        example_op (Some (example_watcher 1 0 0)) 0x80000001 0 True]"]
  by (simp add: NewBatcher_def NewBatcherWithBuffer_def spec_enqueue_error_def
      example_op_def example_watcher_def NeedsCapacity_def)

text \<open>
  Claim C6: \<^verbatim>\<open>Enqueue\<close> checks its preconditions in order and returns the error of the
  first that fails (\<open>NoOperation\<close>, \<open>NoConsumer\<close>, \<open>TooExpensive\<close>, \<open>TooManyAttempts\<close>), leaving
  the batcher as it was; only when every check passes does it change the target (by the
  cost) and hand the operation to the buffer.
\<close>

theorem Enqueue_checks_in_order:
  "(\<forall>e. spec_enqueue_error r p = Some e \<longrightarrow> Enqueue p r = (Returns (Some e), r)) \<and>
   (spec_enqueue_error r p = None \<longrightarrow>
      (\<exists>q w. p = Some q \<and> Watcher q = Some w \<and>
         Enqueue p r =
           (fst (buffer_Enqueue (queued q w) (errorOnFullBuffer r) (buffer r)),
            r\<lparr>target := target r + Cost q,
              buffer := snd (buffer_Enqueue (queued q w) (errorOnFullBuffer r) (buffer r))\<rparr>)))"
  using Enqueue_rejected [of r p] Enqueue_accepted [of r p] by blast

text \<open>
  One input for each outcome. An operation that is both too expensive and out of attempts
  gets \<open>TooExpensive\<close>, the earlier check.
\<close>

theorem Enqueue_checks_in_order_witness:
  "Enqueue None NewBatcher = (Returns (Some NoOperationError), NewBatcher) \<and>
   Enqueue (Some (example_op None 1 0 True)) NewBatcher =
     (Returns (Some NoWatcherError), NewBatcher) \<and>
   Enqueue (Some (example_op (Some (example_watcher 1 0 3)) 9 3 True)) limited_batcher =
     (Returns (Some TooExpensiveError), limited_batcher) \<and>
   Enqueue (Some (example_op (Some (example_watcher 1 0 3)) 8 3 True)) limited_batcher =
     (Returns (Some TooManyAttemptsError), limited_batcher) \<and>
   fst (Enqueue (Some (example_op (Some (example_watcher 1 0 3)) 8 2 True)) limited_batcher) =
     Returns None \<and>
   target (snd (Enqueue (Some (example_op (Some (example_watcher 1 0 3)) 8 2 True))
     limited_batcher)) = 8"
proof -
  have e1: "spec_enqueue_error NewBatcher None = Some NoOperationError"
    by (simp add: spec_enqueue_error_def)
  have e2: "spec_enqueue_error NewBatcher (Some (example_op None 1 0 True)) = Some NoWatcherError"
    by (simp add: spec_enqueue_error_def example_op_def)
  have e3: "spec_enqueue_error limited_batcher
      (Some (example_op (Some (example_watcher 1 0 3)) 9 3 True)) = Some TooExpensiveError"
    by (simp add: spec_enqueue_error_def example_op_def example_watcher_def limited_batcher_def
        WithRateLimiter_def example_limiter_def)
  have e4: "spec_enqueue_error limited_batcher
      (Some (example_op (Some (example_watcher 1 0 3)) 8 3 True)) = Some TooManyAttemptsError"
    by (simp add: spec_enqueue_error_def example_op_def example_watcher_def limited_batcher_def
        WithRateLimiter_def example_limiter_def)
  have e5: "spec_enqueue_error limited_batcher
      (Some (example_op (Some (example_watcher 1 0 3)) 8 2 True)) = None"
    by (simp add: spec_enqueue_error_def example_op_def example_watcher_def limited_batcher_def
        WithRateLimiter_def example_limiter_def)
  have room: "length (items (buffer limited_batcher)) < unat (max_size (buffer limited_batcher))"
    "target limited_batcher = 0"
    by (simp_all add: limited_batcher_def WithRateLimiter_def NewBatcher_def
        NewBatcherWithBuffer_def NewBuffer_def)
  show ?thesis
    using Enqueue_checks_in_order [of NewBatcher None]
      Enqueue_checks_in_order [of NewBatcher "Some (example_op None 1 0 True)"]
      Enqueue_checks_in_order [of limited_batcher
        "Some (example_op (Some (example_watcher 1 0 3)) 9 3 True)"]
      Enqueue_checks_in_order [of limited_batcher
        "Some (example_op (Some (example_watcher 1 0 3)) 8 3 True)"]
      Enqueue_checks_in_order [of limited_batcher
        "Some (example_op (Some (example_watcher 1 0 3)) 8 2 True)"]
      e1 e2 e3 e4 e5 room
    by (auto simp: buffer_Enqueue_def example_op_def)
qed

text \<open>
  Claim C7, as stated: when \<^verbatim>\<open>Enqueue\<close> passes its checks and the buffer, set to return an
  error when full, is at capacity, \<^verbatim>\<open>Enqueue\<close> returns \<open>BufferFull\<close> and the target after
  the call is exactly the cost larger than before. It fails at the top of the \<^verbatim>\<open>uint32\<close>
  range: with the target at \<open>2\<^sup>3\<^sup>2 - 1\<close> after one enqueue into a buffer of one, a second
  enqueue of cost 1 returns \<open>BufferFull\<close> and leaves the target at 0.
\<close>

theorem Enqueue_buffer_full_wraps_counterexample:
  "spec_enqueue_error nearly_wrapped (Some one_more) = None \<and>
   errorOnFullBuffer nearly_wrapped \<and>
   unat (max_size (buffer nearly_wrapped)) \<le> length (items (buffer nearly_wrapped)) \<and>
   uint (target nearly_wrapped) = 2 ^ 32 - 1 \<and>
   fst (Enqueue (Some one_more) nearly_wrapped) = Returns (Some BufferFullError) \<and>
   uint (target (snd (Enqueue (Some one_more) nearly_wrapped))) = 0 \<and>
   uint (target (snd (Enqueue (Some one_more) nearly_wrapped))) \<noteq>
     uint (target nearly_wrapped) + uint (Cost one_more)"
  by code_simp

text \<open>
  Claim C7, amended: when \<^verbatim>\<open>Enqueue\<close> passes its checks and the buffer, set to return an
  error when full, is at capacity, \<^verbatim>\<open>Enqueue\<close> returns \<open>BufferFull\<close> and the increment of
  the target is not rolled back: the target is the earlier target plus the cost modulo
  \<open>2\<^sup>3\<^sup>2\<close>, which is exactly the cost larger whenever that sum is below \<open>2\<^sup>3\<^sup>2\<close>; and the
  buffer is unchanged.
\<close>

theorem Enqueue_buffer_full_keeps_target:
  assumes "spec_enqueue_error r (Some q) = None"
    and "errorOnFullBuffer r"
    and "unat (max_size (buffer r)) \<le> length (items (buffer r))"
  shows "fst (Enqueue (Some q) r) = Returns (Some BufferFullError) \<and>
     target (snd (Enqueue (Some q) r)) = target r + Cost q \<and>
     uint (target (snd (Enqueue (Some q) r))) = (uint (target r) + uint (Cost q)) mod 2 ^ 32 \<and>
     (uint (target r) + uint (Cost q) < 2 ^ 32 \<longrightarrow>
        uint (target (snd (Enqueue (Some q) r))) = uint (target r) + uint (Cost q)) \<and>
     buffer (snd (Enqueue (Some q) r)) = buffer r"
proof -
  from Enqueue_accepted [OF assms(1)] obtain w where
    "Enqueue (Some q) r =
       (fst (buffer_Enqueue (queued q w) (errorOnFullBuffer r) (buffer r)),
        r\<lparr>target := target r + Cost q,
          buffer := snd (buffer_Enqueue (queued q w) (errorOnFullBuffer r) (buffer r))\<rparr>)"
    by auto
  then have "fst (Enqueue (Some q) r) = Returns (Some BufferFullError)"
    and t: "target (snd (Enqueue (Some q) r)) = target r + Cost q"
    and "buffer (snd (Enqueue (Some q) r)) = buffer r"
    using assms(2,3) by (simp_all add: buffer_Enqueue_def)
  moreover from t
  have m: "uint (target (snd (Enqueue (Some q) r))) = (uint (target r) + uint (Cost q)) mod 2 ^ 32"
    by (simp add: uint_word_ariths)
  moreover have "uint (target (snd (Enqueue (Some q) r))) = uint (target r) + uint (Cost q)"
    if "uint (target r) + uint (Cost q) < 2 ^ 32"
    using m that by (simp add: mod_pos_pos_trivial)
  ultimately show ?thesis by blast
qed


text \<open>The full batcher has target 5; a rejected enqueue of cost 7 leaves it at 12.\<close>

theorem Enqueue_buffer_full_keeps_target_witness:
  "target full_batcher = 5 \<and>
   fst (Enqueue (Some (example_op (Some (example_watcher 1 0 0)) 7 0 True)) full_batcher) =
     Returns (Some BufferFullError) \<and>
   target (snd (Enqueue (Some (example_op (Some (example_watcher 1 0 0)) 7 0 True))
     full_batcher)) = 12"
proof -
  have h1: "spec_enqueue_error full_batcher
      (Some (example_op (Some (example_watcher 1 0 0)) 7 0 True)) = None"
    by code_simp
  have h2: "errorOnFullBuffer full_batcher"
    by code_simp
  have h3: "unat (max_size (buffer full_batcher)) \<le> length (items (buffer full_batcher))"
    by code_simp
  have t: "target full_batcher = 5"
    by code_simp
  have c: "Cost (example_op (Some (example_watcher 1 0 0)) 7 0 True) = 7"
    by (simp add: example_op_def)
  from Enqueue_buffer_full_keeps_target [OF h1 h2 h3] t c show ?thesis by simp
qed

section \<open>The loop of the flush pass\<close>

lemma flush_iteration_Break: "flush_iteration now e c s = Break s' \<Longrightarrow> s' = s"
  by (auto simp: flush_iteration_def Let_def split: if_splits option.splits)

lemma flush_loop_rule:
  assumes "P s"
    and "\<And>now e c s s'. P s \<Longrightarrow> flush_iteration now e c s = Continue s' \<Longrightarrow> P s'"
  shows "P (flush_loop now e c s)"
  using assms(1)
proof (induction now e c s rule: flush_loop.induct)
  case (1 now e c s)
  show ?case
  proof (cases "flush_iteration now e c s")
    case (Break s')
    then have "s' = s" by (rule flush_iteration_Break)
    with Break "1.prems" show ?thesis by (simp add: flush_loop.simps [of now e c s])
  next
    case (Continue s')
    with "1.prems" have "P s'" by (auto intro: assms(2))
    with Continue "1.IH" have "P (flush_loop now e c s')" by simp
    with Continue show ?thesis by (simp add: flush_loop.simps [of now e c s])
  qed
qed

lemma self_skip_op: "self (skip_op s) = (self s)\<lparr>buffer := snd (buffer_Skip (buffer (self s)))\<rparr>"
  by (simp add: skip_op_def Let_def)

lemma self_remove_op:
  "self (remove_op s) = (self s)\<lparr>buffer := snd (buffer_Remove (buffer (self s)))\<rparr>"
  by (simp add: remove_op_def Let_def)

lemma batches_skip_op: "batches (skip_op s) = batches s"
  by (simp add: skip_op_def Let_def)

lemma batches_remove_op: "batches (remove_op s) = batches s"
  by (simp add: remove_op_def Let_def)

lemma flush_pass_rule:
  assumes "P r"
    and "\<And>r b. P r \<Longrightarrow> P (r\<lparr>buffer := b\<rparr>)"
    and "\<And>r. P r \<Longrightarrow> P (snd (tryReserveBatchSlot r))"
    and "\<And>now w b r. P r \<Longrightarrow> P (processBatch now w b r)"
  shows "P (flush_pass now r)"
proof -
  have step: "P (self s')" if "P (self s)" "flush_iteration now e c s = Continue s'"
    for now e c s s'
    using that
    by (auto simp: flush_iteration_def Let_def self_skip_op self_remove_op
        split: if_splits option.splits intro!: assms(2-4))
  have "P (self (flush_run now r))"
    unfolding flush_run_def Let_def
    by (rule flush_loop_rule [where P = "\<lambda>s. P (self s)"]) (auto intro: assms step)
  moreover have "P (foldl (\<lambda>r' wb. processBatch now (fst wb) (snd wb) r') r' bs)"
    if "P r'" for r' bs
    using that by (induction bs arbitrary: r') (auto intro: assms(4))
  ultimately show ?thesis by (simp add: flush_pass_def residual_def Let_def)
qed

section \<open>The inflight channel\<close>

lemma chan_ok_buffer: "chan_ok (r\<lparr>buffer := b\<rparr>) = chan_ok r"
  by (simp add: chan_ok_def)

lemma chan_ok_tryReserveBatchSlot: "chan_ok r \<Longrightarrow> chan_ok (snd (tryReserveBatchSlot r))"
  by (cases "inflight r") (auto simp: chan_ok_def tryReserveBatchSlot_def try_send_def)

lemma chan_ok_processBatch: "chan_ok (processBatch now w b r) = chan_ok r"
  by (simp add: chan_ok_def processBatch_def)

lemma chan_ok_flush_pass: "chan_ok r \<Longrightarrow> chan_ok (flush_pass now r)"
  by (rule flush_pass_rule)
    (simp_all add: chan_ok_buffer chan_ok_tryReserveBatchSlot chan_ok_processBatch)

lemma drain_eq: "drain z c = (z \<and> len c = 0, c\<lparr>len := 0\<rparr>)"
proof (induction z c rule: drain.induct)
  case (1 isZero c)
  show ?case
  proof (cases "0 < len c")
    case True
    then have "drain isZero c = drain False (c\<lparr>len := len c - 1\<rparr>)"
      by (simp add: drain.simps [of isZero c] try_recv_def)
    also have "\<dots> = (False, c\<lparr>len := 0\<rparr>)"
      using True "1.IH" by (simp add: try_recv_def)
    finally show ?thesis using True by simp
  next
    case False
    then show ?thesis by (simp add: drain.simps [of isZero c] try_recv_def)
  qed
qed

lemma chan_ok_confirmInflightIsZero: "chan_ok r \<Longrightarrow> chan_ok (snd (confirmInflightIsZero r))"
  by (cases "inflight r") (auto simp: chan_ok_def confirmInflightIsZero_def drain_eq)

lemma chan_ok_target: "chan_ok (r\<lparr>target := t\<rparr>) = chan_ok r"
  by (simp add: chan_ok_def)

lemma chan_ok_incTarget: "chan_ok (incTarget d r) = chan_ok r"
  by (simp add: incTarget_def chan_ok_target)

lemma chan_ok_releaseBatchSlot: "chan_ok r \<Longrightarrow> chan_ok (snd (releaseBatchSlot r))"
  by (cases "inflight r") (auto simp: chan_ok_def releaseBatchSlot_def recv_def)

lemma chan_ok_running: "chan_ok (r\<lparr>running := x\<rparr>) = chan_ok r"
  by (simp add: chan_ok_def)

lemma chan_ok_batch_done: "chan_ok r \<Longrightarrow> chan_ok (batch_done i r)"
  by (simp add: batch_done_def Let_def chan_ok_running chan_ok_releaseBatchSlot chan_ok_incTarget)

lemma chan_ok_Enqueue: "chan_ok r \<Longrightarrow> chan_ok (snd (Enqueue p r))"
proof (cases "spec_enqueue_error r p")
  case None
  assume "chan_ok r"
  with Enqueue_accepted [OF None] show ?thesis by (auto simp: chan_ok_def)
next
  case (Some e)
  assume "chan_ok r"
  with Some show ?thesis by (simp add: Enqueue_rejected)
qed

lemma chan_ok_applyDefaults: "chan_ok (applyDefaults r) = chan_ok r"
  by (simp add: applyDefaults_def Let_def chan_ok_def)

lemma chan_ok_Start: "chan_ok r \<Longrightarrow> chan_ok (snd (Start r))"
  using chan_ok_applyDefaults [of r] by (simp add: Start_def chan_ok_def)

lemma chan_ok_Stop: "chan_ok r \<Longrightarrow> chan_ok (snd (Stop b r))"
  by (simp add: Stop_def Let_def shutdown_def chan_ok_def)

lemma chan_ok_on_audit: "chan_ok r \<Longrightarrow> chan_ok (on_audit now r)"
  by (simp add: on_audit_def chan_ok_confirmInflightIsZero confirmTargetIsZero_def chan_ok_target)

lemma chan_ok_on_flush: "chan_ok r \<Longrightarrow> chan_ok (on_flush now r)"
proof -
  assume ok: "chan_ok r"
  then have "chan_ok (r\<lparr>flush := False\<rparr>)" by (simp add: chan_ok_def)
  then have "chan_ok (flush_pass now (r\<lparr>flush := False\<rparr>))" by (rule chan_ok_flush_pass)
  with ok show ?thesis by (simp add: on_flush_def)
qed

lemma chan_ok_step: "chan_ok r \<Longrightarrow> chan_ok (step a r)"
proof (cases a)
  case (CallWithMaxConcurrentBatches val)
  then show ?thesis by (simp add: WithMaxConcurrentBatches_def chan_ok_def make_chan_def)
qed (simp_all add: chan_ok_Enqueue chan_ok_Start chan_ok_Stop chan_ok_on_audit chan_ok_on_flush
    chan_ok_batch_done,
    simp_all add: chan_ok_def WithRateLimiter_def WithFlushInterval_def WithCapacityInterval_def
      WithAuditInterval_def WithMaxOperationTime_def WithPauseTime_def WithErrorOnFullBuffer_def
      WithEmitBatch_def WithEmitFlush_def Pause_def Flush_def on_pause_def pause_over_def
      resume_def on_flush_timer_def)

lemma chan_ok_run: "chan_ok r \<Longrightarrow> chan_ok (run acts r)"
  by (induction acts arbitrary: r) (simp_all add: run_Nil run_Cons chan_ok_step)

lemma chan_ok_new: "chan_ok (NewBatcherWithBuffer n)"
  by (simp add: chan_ok_def NewBatcherWithBuffer_def)


lemma Inflight_chan:
  assumes "chan_ok r" "inflight r = Some c"
  shows "unat (Inflight r) = len c" "len c \<le> unat (maxConcurrentBatches r)"
    "cap c = unat (maxConcurrentBatches r)" "0 < recvq c \<Longrightarrow> len c = 0"
proof -
  from assms show le: "len c \<le> unat (maxConcurrentBatches r)"
    and "cap c = unat (maxConcurrentBatches r)"
    and "0 < recvq c \<Longrightarrow> len c = 0"
    by (simp_all add: chan_ok_def)
  from le have "unat (word_of_nat (len c) :: uint32) = len c"
    by (rule le_unat_uoi)
  with assms(2) show "unat (Inflight r) = len c" by (simp add: Inflight_def)
qed

section \<open>Evaluation of examples\<close>

text \<open>The defining equations, for the simplifier to run an example.\<close>

lemmas eval_defs =
  run_def NewBatcher_def NewBatcherWithBuffer_def NewBuffer_def
  WithRateLimiter_def WithFlushInterval_def WithCapacityInterval_def WithAuditInterval_def
  WithMaxOperationTime_def WithPauseTime_def WithErrorOnFullBuffer_def WithEmitBatch_def
  WithEmitFlush_def WithMaxConcurrentBatches_def make_chan_def applyDefaults_def
  Enqueue_def incTarget_def word_sless_alt buffer_Enqueue_def
  Pause_def resume_def Flush_def Start_def Stop_def shutdown_def
  buffer_Max_def buffer_Size_def buffer_Clear_def buffer_Top_def buffer_Skip_def
  buffer_Remove_def at_cursor_def
  tryReserveBatchSlot_def releaseBatchSlot_def try_send_def try_recv_def recv_def
  confirmInflightIsZero_def confirmTargetIsZero_def Inflight_def NeedsCapacity_def
  MakeAttempt_def processBatch_def total_cost_def batch_done_def
  skip_op_def remove_op_def flush_iteration_def flush_loop.simps flush_run_def flush_pass_def
  residual_def on_pause_def pause_over_def on_audit_def since_def on_flush_timer_def
  on_flush_def
  dispatched_def example_watcher_def example_op_def example_limiter_def
  Millisecond_def Second_def Minute_def Let_def

section \<open>Admission\<close>

text \<open>
  Claim C9: when \<^verbatim>\<open>maxConcurrentBatches\<close> is 0, \<^verbatim>\<open>Inflight()\<close> returns 0 in every state that a
  run of a new batcher reaches, also while dispatched batches are outstanding: reserving
  and releasing a slot return at once and leave the batcher, and so the channel, as it is.
\<close>

theorem Inflight_zero_when_unlimited:
  assumes "r = run acts (NewBatcherWithBuffer n)" and "maxConcurrentBatches r = 0"
  shows "Inflight r = 0 \<and> tryReserveBatchSlot r = (True, r) \<and> releaseBatchSlot r = (True, r)"
proof -
  from assms(1) have ok: "chan_ok r" by (simp add: chan_ok_run chan_ok_new)
  have "Inflight r = 0"
  proof (cases "inflight r")
    case None
    then show ?thesis by (simp add: Inflight_def)
  next
    case (Some c)
    from Inflight_chan(1,2) [OF ok Some] assms(2) have "unat (Inflight r) = 0" by simp
    then show ?thesis by (simp add: unat_0_iff)
  qed
  with assms(2) show ?thesis by (simp add: tryReserveBatchSlot_def releaseBatchSlot_def)
qed

text \<open>After the flush one batch is running and \<^verbatim>\<open>Inflight()\<close> is 0.\<close>

theorem Inflight_zero_when_unlimited_witness:
  "maxConcurrentBatches one_outstanding = 0 \<and> length (running one_outstanding) = 1 \<and>
   Inflight one_outstanding = 0"
proof -
  have "maxConcurrentBatches one_outstanding = 0 \<and> length (running one_outstanding) = 1"
    by (simp add: one_outstanding_def eval_defs flush_capacity_def)
  then have h: "maxConcurrentBatches one_outstanding = 0"
    and o: "length (running one_outstanding) = 1"
    by simp_all
  have r: "one_outstanding = run [CallEnqueue (Some (example_op (Some (example_watcher 1 0 0)) 1 0 True)),
          CallStart, CallFlush, FlushSignal 0] (NewBatcherWithBuffer 10000)"
    by (simp add: one_outstanding_def NewBatcher_def)
  from Inflight_zero_when_unlimited [OF r h] h o show ?thesis by simp
qed



section \<open>The phase\<close>
















lemma phase_control: "control r' = control r \<Longrightarrow> phase r' = phase r"
  by (simp add: control_def)











lemma phase_Start:
  "\<not> phaseMutex r \<Longrightarrow>
   Start r =
     (if phase r \<noteq> batcherPhaseUninitialized then (Returns (Some BatcherImproperOrderError), r)
      else if buffer_Max (buffer r) = 0 then (Returns (Some BufferNotAllocated), r)
      else (Returns None, (applyDefaults r)\<lparr>stop := stop_open, looping := True,
                                             phase := batcherPhaseStarted\<rparr>))"
  by (simp add: Start_def)


text \<open>
  The defect that the amended claim leaves out: once the loop has taken the pause record,
  \<^verbatim>\<open>Stop\<close> does not return and the phase stays Paused; the same happens when the record
  still waits and the loop's \<^verbatim>\<open>select\<close> takes it before the stop case.
\<close>

lemma Stop_while_Paused:
  "\<not> fst (Stop b (run [CallStart, CallPause, PauseSignal] NewBatcher)) \<and>
   phase (snd (Stop b (run [CallStart, CallPause, PauseSignal] NewBatcher))) =
     batcherPhasePaused \<and>
   \<not> fst (Stop True (run [CallStart, CallPause] NewBatcher)) \<and>
   phase (snd (Stop True (run [CallStart, CallPause] NewBatcher))) = batcherPhasePaused"
  by (simp add: eval_defs)




section \<open>The batches of a flush pass\<close>

lemma launched_tryReserveBatchSlot: "launched (snd (tryReserveBatchSlot r)) = launched r"
  by (cases "inflight r") (simp_all add: tryReserveBatchSlot_def)

lemma launched_processBatch:
  "launched (processBatch now w b r) = launched r @ (if b = [] then [] else [(w, b)])"
  by (simp add: processBatch_def)

lemma launched_skip_op: "launched (self (skip_op s)) = launched (self s)"
  by (simp add: self_skip_op)

lemma launched_remove_op: "launched (self (remove_op s)) = launched (self s)"
  by (simp add: self_remove_op)

lemma launched_residual:
  "launched (residual now al r) = launched r @ filter (\<lambda>wb. snd wb \<noteq> []) al"
  unfolding residual_def
  by (induction al arbitrary: r) (simp_all add: launched_processBatch)

text \<open>
  Whatever the order in which the residual batches are sent, the same batches are
  launched, after those launched before.
\<close>

lemma residual_any_order:
  assumes "set al' = set al"
  shows "set (launched (residual now al' r)) = set (launched (residual now al r))"
    and "take (length (launched r)) (launched (residual now al' r)) = launched r"
  using assms by (simp_all add: launched_residual)

lemma update_subset: "set (AList.update k v al) \<subseteq> insert (k, v) (set al)"
  by (induction al) auto

lemma update_member: "(k, v) \<in> set (AList.update k v al)"
  by (induction al) auto

lemma update_keeps:
  "(k', v') \<in> set al \<Longrightarrow> (k', v') \<in> set (AList.update k v al) \<or> (k' = k \<and> map_of al k = Some v')"
  by (induction al) auto

lemma list_all_update:
  "list_all P al \<Longrightarrow> P (k, v) \<Longrightarrow> list_all P (AList.update k v al)"
  using update_subset [of k v al] by (auto simp: list_all_iff)

lemma sizes_ok_skip_op: "sizes_ok n (skip_op s) = sizes_ok n s"
  by (simp add: sizes_ok_def launched_skip_op batches_skip_op)

lemma sizes_ok_remove_op: "sizes_ok n (remove_op s) = sizes_ok n s"
  by (simp add: sizes_ok_def launched_remove_op batches_remove_op)

lemma lookup_has_room:
  "list_all has_room al \<Longrightarrow>
   has_room (w, case map_of al w of None \<Rightarrow> [] | Some b \<Rightarrow> b)"
proof (cases "map_of al w")
  case None
  then show ?thesis
    by (simp add: has_room_def unat_gt_0 flip: neq0_conv)
      (metis neq0_conv unat_0_iff)
next
  case (Some b)
  assume "list_all has_room al"
  moreover from Some have "(w, b) \<in> set al" by (rule map_of_SomeD)
  ultimately show ?thesis using Some by (auto simp: list_all_iff)
qed

lemma sizes_ok_step:
  assumes "sizes_ok n s" and "flush_iteration now e c s = Continue s'"
  shows "sizes_ok n s'"
proof -
  from assms(2) obtain p where p: "op s = Some p"
    by (cases "op s") (simp_all add: flush_iteration_def split: if_splits)
  from assms(1) have n: "n \<le> length (launched (self s))"
    and l: "list_all fits (drop n (launched (self s)))"
    and b: "list_all has_room (batches s)"
    by (simp_all add: sizes_ok_def)
  let ?w = "Watcher p"
  let ?batch = "case map_of (batches s) ?w of None \<Rightarrow> [] | Some b \<Rightarrow> b"
  from b have room: "has_room (?w, ?batch)" by (rule lookup_has_room)
  have single: "fits (?w, [p])"
    by (simp add: fits_def) (metis Suc_leI neq0_conv unat_0_iff)
  have full: "fits (?w, ?batch @ [p])"
    using room by (auto simp: fits_def has_room_def)
  have more: "has_room (?w, ?batch @ [p])"
    if "\<not> (0 < MaxBatchSize ?w \<and> unat (MaxBatchSize ?w) \<le> length (?batch @ [p]))"
    using that by (auto simp: has_room_def word_greater_zero_iff)
  have empty: "has_room (?w, [])"
    by (simp add: has_room_def) (metis neq0_conv unat_0_iff)
  from assms(2) p n l b single full more empty show ?thesis
    by (auto simp: flush_iteration_def Let_def sizes_ok_def launched_skip_op launched_remove_op
          batches_skip_op batches_remove_op launched_tryReserveBatchSlot launched_processBatch
          list_all_update
        split: if_splits)
qed


lemma sizes_ok_flush_run: "sizes_ok (length (launched r)) (flush_run now r)"
  unfolding flush_run_def Let_def
proof (rule flush_loop_rule [where P = "sizes_ok (length (launched r))"], goal_cases)
  case 1
  show ?case by (simp add: sizes_ok_def)
next
  case (2 now e c s s')
  then show ?case by (rule sizes_ok_step)
qed

lemma dispatched_eq:
  "dispatched now r =
     drop (length (launched r)) (launched (self (flush_run now r))) @
     filter (\<lambda>wb. snd wb \<noteq> []) (batches (flush_run now r))"
  using sizes_ok_flush_run [of r now]
  by (simp add: dispatched_def flush_pass_def Let_def launched_residual sizes_ok_def)

lemma has_room_fits: "has_room wb \<Longrightarrow> fits wb"
  by (auto simp: has_room_def fits_def)

lemma dispatched_fit: "list_all fits (dispatched now r)"
  using sizes_ok_flush_run [of r now]
  by (auto simp: dispatched_eq sizes_ok_def list_all_iff has_room_fits)

lemma replicate_seven: "replicate 7 x = [x, x, x, x, x, x, x]"
  by (simp add: numeral_eq_Suc)

lemma dispatched_seven:
  "dispatched 0 seven_enqueued =
     (let q = queued unit_op (example_watcher 1 3 0)
      in [(example_watcher 1 3 0, [q, q, q]), (example_watcher 1 3 0, [q, q, q]),
          (example_watcher 1 3 0, [q])])"
  by (simp add: seven_enqueued_def replicate_seven unit_op_def queued_def eval_defs
      flush_capacity_def)

text \<open>
  Claim C4: for every watcher with \<^verbatim>\<open>MaxBatchSize\<close> \<open>m > 0\<close>, each batch that a flush pass
  hands to \<^verbatim>\<open>processBatch\<close> for it holds at most \<open>m\<close> operations; and seven batchable
  operations of cost 1 for one watcher with \<^verbatim>\<open>MaxBatchSize\<close> 3, without a rate limiter,
  leave the pass as batches of sizes 3, 3 and 1, in that order.
\<close>

theorem batches_within_max_batch_size:
  "(\<forall>wb \<in> set (dispatched now r).
      0 < MaxBatchSize (fst wb) \<longrightarrow> length (snd wb) \<le> unat (MaxBatchSize (fst wb))) \<and>
   map (length \<circ> snd) (dispatched 0 seven_enqueued) = [3, 3, 1]"
proof -
  have "length (snd wb) \<le> unat (MaxBatchSize (fst wb))"
    if "wb \<in> set (dispatched now r)" "0 < MaxBatchSize (fst wb)" for wb
    using that dispatched_fit [of now r] by (auto simp: list_all_iff fits_def)
  then show ?thesis by (simp add: dispatched_seven Let_def)
qed

text \<open>The first batch of the seven operations has three of them, and three is the maximum.\<close>

theorem batches_within_max_batch_size_witness:
  "(example_watcher 1 3 0, replicate 3 (queued unit_op (example_watcher 1 3 0)))
     \<in> set (dispatched 0 seven_enqueued) \<and>
   0 < MaxBatchSize (example_watcher 1 3 0) \<and>
   length (replicate 3 (queued unit_op (example_watcher 1 3 0))) \<le>
     unat (MaxBatchSize (example_watcher 1 3 0))"
proof -
  have three: "replicate 3 x = [x, x, x]" for x :: "watcher operation"
    by (simp add: numeral_eq_Suc)
  show ?thesis
    using batches_within_max_batch_size [of 0 seven_enqueued]
    by (simp add: dispatched_seven Let_def three example_watcher_def)
qed

section \<open>The head of the buffer\<close>

lemma ops_of_Nil: "ops_of [] = {}"
  by (simp add: ops_of_def)

lemma ops_of_append: "ops_of (xs @ ys) = ops_of xs \<union> ops_of ys"
  by (simp add: ops_of_def)

lemma ops_of_single: "ops_of [(w, b)] = set b"
  by (simp add: ops_of_def)

lemma ops_of_nonempty: "ops_of (filter (\<lambda>wb. snd wb \<noteq> []) bs) = ops_of bs"
  by (induction bs) (auto simp: ops_of_def)

lemma ops_of_member: "(k, v) \<in> set bs \<Longrightarrow> x \<in> set v \<Longrightarrow> x \<in> ops_of bs"
  by (force simp: ops_of_def)

lemma in_update_new: "x \<in> set v \<Longrightarrow> x \<in> ops_of (AList.update k v al)"
  using update_member [of k v al] by (rule ops_of_member)

lemma in_update_old:
  assumes "x \<in> ops_of al"
  shows "x \<in> ops_of (AList.update k v al) \<or>
         x \<in> set (case map_of al k of None \<Rightarrow> [] | Some b \<Rightarrow> b)"
proof -
  from assms obtain k' v' where kv: "(k', v') \<in> set al" "x \<in> set v'"
    by (auto simp: ops_of_def)
  from update_keeps [OF kv(1), of k v] show ?thesis
  proof
    assume "(k', v') \<in> set (AList.update k v al)"
    then show ?thesis using kv(2) by (auto intro: ops_of_member)
  next
    assume "k' = k \<and> map_of al k = Some v'"
    with kv(2) show ?thesis by simp
  qed
qed

lemma carried_step:
  assumes "carried n x s" and "flush_iteration now e c s = Continue s'"
  shows "carried n x s'"
proof -
  from assms(2) obtain p where p: "op s = Some p"
    by (cases "op s") (simp_all add: flush_iteration_def split: if_splits)
  from assms(1) have n: "n \<le> length (launched (self s))" by (simp add: carried_def)
  let ?w = "Watcher p"
  let ?batch = "case map_of (batches s) ?w of None \<Rightarrow> [] | Some b \<Rightarrow> b"
  have store: "x \<in> ops_of (AList.update ?w (?batch @ [p]) (batches s))"
    if "x \<in> ops_of (batches s)"
    using in_update_old [OF that, of ?w "?batch @ [p]"]
      in_update_new [of x "?batch @ [p]" ?w "batches s"]
    by auto
  have sent: "x \<in> ops_of (AList.update ?w [] (batches s)) \<or> x \<in> set ?batch"
    if "x \<in> ops_of (batches s)"
    using in_update_old [OF that, of ?w "[]"] by auto
  from assms p n store sent show ?thesis
    by (auto simp: flush_iteration_def Let_def carried_def launched_skip_op launched_remove_op
          batches_skip_op batches_remove_op launched_tryReserveBatchSlot launched_processBatch
          ops_of_append ops_of_single ops_of_Nil
        split: if_splits option.splits)
qed

lemma tryReserveBatchSlot_buffer:
  "tryReserveBatchSlot (r\<lparr>buffer := b\<rparr>) =
     (fst (tryReserveBatchSlot r), (snd (tryReserveBatchSlot r))\<lparr>buffer := b\<rparr>)"
  by (cases "inflight r") (simp_all add: tryReserveBatchSlot_def)

lemma first_iteration:
  assumes "items (buffer r) = p # rest" and "fst (tryReserveBatchSlot r)"
  shows "\<exists>s. flush_iteration now e c
           \<lparr>op = fst (buffer_Top (buffer r)), batches = [], consumed = 0,
            self = r\<lparr>buffer := snd (buffer_Top (buffer r))\<rparr>\<rparr> = Continue s \<and>
         carried (length (launched r)) p s"
proof -
  have top: "fst (buffer_Top (buffer r)) = Some p"
    using assms(1) by (simp add: buffer_Top_def at_cursor_def Let_def)
  have zero: "\<not> c < (0 :: uint32)" by (simp add: word_less_nat_alt)
  show ?thesis
    using assms(2) zero
    by (simp add: flush_iteration_def Let_def top tryReserveBatchSlot_buffer carried_def
        launched_remove_op launched_tryReserveBatchSlot launched_processBatch
        batches_remove_op ops_of_single ops_of_Nil ops_of_append in_update_new)
qed

lemma carried_flush_run:
  assumes "items (buffer r) = p # rest" and "fst (tryReserveBatchSlot r)"
  shows "carried (length (launched r)) p (flush_run now r)"
proof -
  let ?e = "ratelimiter r \<noteq> None" and ?c = "flush_capacity r"
  let ?s0 = "\<lparr>op = fst (buffer_Top (buffer r)), batches = [], consumed = 0,
            self = r\<lparr>buffer := snd (buffer_Top (buffer r))\<rparr>\<rparr>"
  from first_iteration [OF assms, of now ?e ?c] obtain s where
    s: "flush_iteration now ?e ?c ?s0 = Continue s" "carried (length (launched r)) p s"
    by blast
  have "carried (length (launched r)) p (flush_loop now ?e ?c s)"
    using s(2) by (rule flush_loop_rule) (rule carried_step)
  moreover have "flush_loop now ?e ?c ?s0 = flush_loop now ?e ?c s"
    by (simp only: flush_loop.simps [of now ?e ?c ?s0] s(1) iteration.case)
  moreover have "flush_run now r = flush_loop now ?e ?c ?s0"
    by (simp only: flush_run_def Let_def)
  ultimately show ?thesis by simp
qed

lemma Break_iff:
  "(\<exists>s'. flush_iteration now e c s = Break s') = ((e \<and> c < consumed s) \<or> op s = None)"
  by (cases "op s") (auto simp: flush_iteration_def Let_def)

text \<open>
  Claim C1: in every flush pass over a non-empty buffer, if a slot can be reserved for
  the head operation then the head operation is dispatched during that pass, whatever the
  capacity (zero included); and an iteration of the loop stops on the capacity test only
  when the consumed cost strictly exceeds the capacity (the other stop is the end of the
  buffer), so consumed equal to capacity goes on. The theorem holds with or without a rate
  limiter.
\<close>

theorem head_operation_dispatched:
  assumes "items (buffer r) = p # rest" and "fst (tryReserveBatchSlot r)"
  shows "p \<in> ops_of (dispatched now r) \<and>
     (\<forall>e c s. (\<exists>s'. flush_iteration now e c s = Break s') =
        ((e \<and> c < consumed s) \<or> op s = None))"
proof -
  from carried_flush_run [OF assms, of now]
  have "p \<in> ops_of (dispatched now r)"
    by (auto simp: carried_def dispatched_eq ops_of_append ops_of_nonempty)
  then show ?thesis by (simp add: Break_iff)
qed


lemma zero_capacity_eval:
  "ratelimiter zero_capacity = Some (example_limiter 0 100) \<and>
   flush_capacity zero_capacity = 0 \<and>
   items (buffer zero_capacity) =
     [queued (example_op (Some (example_watcher 1 0 0)) 5 0 False) (example_watcher 1 0 0),
      queued (example_op (Some (example_watcher 1 0 0)) 6 0 False) (example_watcher 1 0 0)] \<and>
   fst (tryReserveBatchSlot zero_capacity) \<and>
   dispatched 0 zero_capacity =
     [(example_watcher 1 0 0,
       [queued (example_op (Some (example_watcher 1 0 0)) 5 0 False) (example_watcher 1 0 0)])]"
  by (simp add: zero_capacity_def queued_def eval_defs flush_capacity_def float64_mul_def
      float64_div_def float64_of_uint32_def float64_round_def uint32_of_float64_def)

text \<open>
  With a rate limiter of capacity 0 the capacity of the pass is 0, and the pass still
  dispatches the first of the two operations (and only that one).
\<close>

theorem head_operation_dispatched_witness:
  "ratelimiter zero_capacity \<noteq> None \<and> flush_capacity zero_capacity = 0 \<and>
   length (items (buffer zero_capacity)) = 2 \<and>
   fst (tryReserveBatchSlot zero_capacity) \<and>
   hd (items (buffer zero_capacity)) \<in> ops_of (dispatched 0 zero_capacity) \<and>
   length (dispatched 0 zero_capacity) = 1"
  using zero_capacity_eval
    head_operation_dispatched [of zero_capacity
      "queued (example_op (Some (example_watcher 1 0 0)) 5 0 False) (example_watcher 1 0 0)"
      "[queued (example_op (Some (example_watcher 1 0 0)) 6 0 False) (example_watcher 1 0 0)]" 0]
  by simp

section \<open>The capacity of a flush pass\<close>

lemma float64_round_tenth: "float64_round (1 / 10) = 3602879701896397 / 2 ^ 55"
  by code_simp

lemma slice_570:
  "uint32_of_float64
     (float64_mul (float64_div (float64_of_uint32 570) 1000)
        (float64_of_int64 (Milliseconds (100 * Millisecond)))) = 56"
  by code_simp

lemma slice_1000:
  "uint32_of_float64
     (float64_mul (float64_div (float64_of_uint32 1000) 1000)
        (float64_of_int64 (Milliseconds (100 * Millisecond)))) = 100"
  by code_simp

lemma flush_capacity_570:
  assumes "ratelimiter r = Some (example_limiter 570 m)" and "flushInterval r = 100 * Millisecond"
  shows "flush_capacity r = 56"
  using assms slice_570 by (simp add: flush_capacity_def example_limiter_def)

lemma flush_capacity_1000:
  assumes "ratelimiter r = Some (example_limiter 1000 m)" and "flushInterval r = 100 * Millisecond"
  shows "flush_capacity r = 100"
  using assms slice_1000 by (simp add: flush_capacity_def example_limiter_def)

lemma spec_570: "spec_flush_capacity 570 100 = 57"
  by (simp add: spec_flush_capacity_def)

lemma spec_1000: "spec_flush_capacity 1000 100 = 100"
  by (simp add: spec_flush_capacity_def)

lemma run_enqueues:
  assumes "\<forall>q \<in> set qs. spec_enqueue_error r (Some q) = None"
    and "length (items (buffer r)) + length qs \<le> unat (max_size (buffer r))"
  shows "run (map (\<lambda>q. CallEnqueue (Some q)) qs) r =
     r\<lparr>target := target r + sum_list (map Cost qs),
       buffer := (buffer r)\<lparr>items := items (buffer r) @
                   map (\<lambda>q. queued q (the (Watcher q))) qs\<rparr>\<rparr>"
  using assms
proof (induction qs arbitrary: r)
  case Nil
  show ?case by (simp add: run_Nil)
next
  case (Cons q qs)
  let ?r = "snd (Enqueue (Some q) r)"
  from Cons.prems(1) have ok: "spec_enqueue_error r (Some q) = None" by simp
  from Enqueue_accepted [OF ok] obtain w where w: "Watcher q = Some w"
    and eq: "Enqueue (Some q) r =
       (fst (buffer_Enqueue (queued q w) (errorOnFullBuffer r) (buffer r)),
        r\<lparr>target := target r + Cost q,
          buffer := snd (buffer_Enqueue (queued q w) (errorOnFullBuffer r) (buffer r))\<rparr>)"
    by auto
  from Cons.prems(2) have room: "length (items (buffer r)) < unat (max_size (buffer r))"
    by simp
  from eq room have r': "?r = r\<lparr>target := target r + Cost q,
      buffer := (buffer r)\<lparr>items := items (buffer r) @ [queued q w]\<rparr>\<rparr>"
    by (simp add: buffer_Enqueue_def)
  from Cons.prems(1) have "\<forall>q' \<in> set qs. spec_enqueue_error ?r (Some q') = None"
    by (simp add: spec_enqueue_error_Enqueue)
  moreover from Cons.prems(2) r'
  have "length (items (buffer ?r)) + length qs \<le> unat (max_size (buffer ?r))"
    by simp
  ultimately have "run (map (\<lambda>q. CallEnqueue (Some q)) qs) ?r =
     ?r\<lparr>target := target ?r + sum_list (map Cost qs),
       buffer := (buffer ?r)\<lparr>items := items (buffer ?r) @
                   map (\<lambda>q. queued q (the (Watcher q))) qs\<rparr>\<rparr>"
    by (rule Cons.IH)
  then show ?case by (simp add: run_Cons r' w add.assoc)
qed

lemma fifty_state:
  "fifty_enqueued =
     snd (Start ((limited_to 1000)
       \<lparr>target := 500,
        buffer := \<lparr>items = replicate 50 (queued ten_op (example_watcher 1 0 0)), cursor = 0,
                   max_size = 10000\<rparr>\<rparr>))"
proof -
  have "run (map (\<lambda>q. CallEnqueue (Some q)) (replicate 50 ten_op)) (limited_to 1000) =
     (limited_to 1000)\<lparr>target := target (limited_to 1000) + sum_list (map Cost (replicate 50 ten_op)),
       buffer := (buffer (limited_to 1000))\<lparr>items := items (buffer (limited_to 1000)) @
                   map (\<lambda>q. queued q (the (Watcher q))) (replicate 50 ten_op)\<rparr>\<rparr>"
    by (rule run_enqueues)
      (simp_all add: spec_enqueue_error_def limited_to_def ten_op_def eval_defs)
  then show ?thesis
    by (simp add: fifty_enqueued_def run_append run_Cons run_Nil limited_to_def ten_op_def
        eval_defs sum_list_replicate)
qed

lemma fifty_eval:
  "consumed (flush_run 0 fifty_enqueued) = 110 \<and>
   map (length \<circ> snd) (dispatched 0 fifty_enqueued) = [11] \<and>
   length (items (buffer (flush_pass 0 fifty_enqueued))) = 39"
  by (simp add: fifty_state limited_to_def ten_op_def queued_def
      eval_defs flush_capacity_1000 [where m = 1000])


lemma limited_fields:
  "ratelimiter (limited_to c) = Some (example_limiter c 1000) \<and>
   flushInterval (limited_to c) = 100 * Millisecond"
  by (simp add: limited_to_def run_def WithRateLimiter_def WithFlushInterval_def)

text \<open>
  The scenario of the specification: capacity 1000 and a flush interval of 100 ms give a
  capacity of 100 for the pass; of fifty operations of cost 10 the first pass dispatches
  one batch of eleven, and has consumed 110.
\<close>

lemma capacity_slicing_scenario:
  "flush_capacity fifty_enqueued = 100 \<and>
   spec_flush_capacity 1000 (Milliseconds (flushInterval fifty_enqueued)) = 100 \<and>
   consumed (flush_run 0 fifty_enqueued) = 110 \<and>
   map (length \<circ> snd) (dispatched 0 fifty_enqueued) = [11]"
proof -
  have f: "ratelimiter fifty_enqueued = Some (example_limiter 1000 1000)"
    "flushInterval fifty_enqueued = 100 * Millisecond"
    by (simp_all add: fifty_state limited_to_def eval_defs)
  from f have "flush_capacity fifty_enqueued = 100" by (rule flush_capacity_1000)
  moreover have "spec_flush_capacity 1000 (Milliseconds (flushInterval fifty_enqueued)) = 100"
    by (simp add: f spec_flush_capacity_def Milliseconds_def Millisecond_def)
  ultimately show ?thesis using fifty_eval by simp
qed

text \<open>
  Claim C5 says that the capacity of a pass is \<open>floor(capacity * flush_interval_ms / 1000)\<close>.
  The code divides and multiplies in \<^verbatim>\<open>float64\<close>: with a capacity of 570 and the interval
  of 100 ms the quotient \<open>570 / 1000.0\<close> rounds below 0.57, the product is
  56.99999999999999, and the conversion to \<^verbatim>\<open>uint32\<close> cuts it to 56, where the formula
  gives 57.
\<close>

theorem flush_capacity_rounds_down:
  "ratelimiter (limited_to 570) = Some \<lparr>Capacity = 570, MaxCapacity = 1000\<rparr> \<and>
   Milliseconds (flushInterval (limited_to 570)) = 100 \<and>
   spec_flush_capacity 570 100 = 57 \<and>
   flush_capacity (limited_to 570) = 56"
proof -
  have "flush_capacity (limited_to 570) = 56"
    using limited_fields [of 570] by (intro flush_capacity_570) simp_all
  then show ?thesis
    using limited_fields [of 570]
    by (simp add: spec_flush_capacity_def example_limiter_def Milliseconds_def Millisecond_def)
qed

end
